theory Spec2Isabelle
  imports Complex_Main "HOL-Library.Word" "HOL-Library.Monad_Syntax" "HOL-Library.Log_Nat"
begin

unbundle bit_operations_syntax

section \<open>Numbers, buffers and undefined behaviour\<close>

text \<open>
  \<open>fluid_real_t\<close> is \<open>float\<close> (with \<open>WITH_FLOAT\<close>) or \<open>double\<close>, depending on the build.
  Its values are modelled as real numbers. Every arithmetic operation of the code yields
  the exact result rounded to the format; the rounding of \<open>fluid_real_t\<close> is the parameter
  \<open>rnd\<close> of the model: \<open>round_float\<close> in the build with \<open>WITH_FLOAT\<close>, \<open>round_double\<close> in
  the other. A product or a sum of several operations rounds once per operation, in the
  order of evaluation of C.

  Rounding is to the nearest value of the format, a tie to the value with the even
  significand (the default mode of IEEE 754): \<open>round_nearest_even p\<close> rounds to a
  significand of \<open>p\<close> bits, 24 for \<open>float\<close> and 53 for \<open>double\<close>. The exponent is not
  bounded in the model: overflow, gradual underflow, infinities, NaN and the sign of zero
  are outside of it.
\<close>

type_synonym fluid_real_t = real

type_synonym rounding = "real \<Rightarrow> real"

text \<open>The nearest integer, a tie to the even one.\<close>

definition round_half_even :: "real \<Rightarrow> int" where
  "round_half_even x =
     (let n = \<lfloor>x\<rfloor>; d = x - real_of_int n
      in if d < 1 / 2 then n else if 1 / 2 < d then n + 1 else if even n then n else n + 1)"

text \<open>The exponent \<open>e\<close> of a value other than zero: \<open>2 ^ e \<le> \<bar>x\<bar> < 2 ^ (e + 1)\<close>.\<close>

definition binade :: "real \<Rightarrow> int" where
  "binade x =
     (if 1 \<le> \<bar>x\<bar> then bitlen \<lfloor>\<bar>x\<bar>\<rfloor> - 1 else - bitlen (\<lceil>1 / \<bar>x\<bar>\<rceil> - 1))"

definition round_nearest_even :: "nat \<Rightarrow> real \<Rightarrow> real" where
  "round_nearest_even p x =
     (if x = 0 then 0
      else let e = binade x - (int p - 1)
           in real_of_int (round_half_even (x / 2 powi e)) * 2 powi e)"

definition round_float :: rounding where
  "round_float x = round_nearest_even 24 x"

definition round_double :: rounding where
  "round_double x = round_nearest_even 53 x"

text \<open>
  A C array is a list. A read or a write outside the array is undefined behaviour in C;
  the model returns \<open>None\<close> there, and \<open>None\<close> propagates to the result of the stage.
  Buffer offsets (\<open>dsp_i\<close>, \<open>dsp_start\<close>, \<open>dsp_end\<close>) are natural numbers.
\<close>

definition buf_read :: "fluid_real_t list \<Rightarrow> nat \<Rightarrow> fluid_real_t option" where
  "buf_read xs i = (if i < length xs then Some (xs ! i) else None)"

definition buf_write ::
  "fluid_real_t list \<Rightarrow> nat \<Rightarrow> fluid_real_t \<Rightarrow> fluid_real_t list option" where
  "buf_write xs i v = (if i < length xs then Some (xs[i := v]) else None)"

text \<open>
  The waveform \<open>dsp_data\<close> holds signed 16-bit samples; the index is a C \<open>int\<close>. A sample
  that takes part in the arithmetic is converted to \<open>fluid_real_t\<close>, which represents every
  16-bit integer.
\<close>

definition data_read :: "16 word list \<Rightarrow> int \<Rightarrow> fluid_real_t option" where
  "data_read dsp_data k =
     (if 0 \<le> k \<and> k < int (length dsp_data)
      then Some (real_of_int (sint (dsp_data ! nat k))) else None)"

section \<open>The phase\<close>

text \<open>
  Modelled from the spec: the header with \<open>fluid_phase_t\<close> and its macros
  (\<open>fluid_phase_index\<close>, \<open>fluid_phase_fract\<close>, \<open>fluid_phase_index_plusplus\<close>,
  \<open>fluid_phase_incr\<close>) is not among the sources. The phase is a fixed-point quantity with
  an integer component, the index into the sample table, and a fractional component in
  \<open>[0, 1)\<close>; an increment propagates the carry from the fractional to the integer part.
  The fractional part is taken here as a 32-bit unsigned fraction, the index as an
  unbounded integer.
\<close>

record fluid_phase_t =
  phase_index :: int
  phase_fract :: "32 word"

definition fluid_phase_index :: "fluid_phase_t \<Rightarrow> int" where
  "fluid_phase_index p = phase_index p"

definition fluid_phase_fract :: "fluid_phase_t \<Rightarrow> 32 word" where
  "fluid_phase_fract p = phase_fract p"

text \<open>
  Modelled from the spec: \<open>fluid_phase_index_plusplus\<close> is the post-increment of the
  index: it yields the current index and advances the phase by one whole sample. (The
  specification's scenario with the table 10, 20, 30, ... and a phase that starts at
  index 0 expects the output 10, 20, 30, 40: the sample read is the one at the index
  before the step.)
\<close>

definition fluid_phase_index_plusplus :: "fluid_phase_t \<Rightarrow> int \<times> fluid_phase_t" where
  "fluid_phase_index_plusplus p = (phase_index p, p\<lparr>phase_index := phase_index p + 1\<rparr>)"

text \<open>
  Modelled from the spec: \<open>fluid_phase_incr a b\<close> advances \<open>a\<close> by the increment \<open>b\<close>,
  with the carry of the fractional parts added to the index.
\<close>

definition fluid_phase_incr :: "fluid_phase_t \<Rightarrow> fluid_phase_t \<Rightarrow> fluid_phase_t" where
  "fluid_phase_incr a b =
     \<lparr>phase_index = phase_index a + phase_index b
        + (if 2 ^ 32 \<le> unat (phase_fract a) + unat (phase_fract b) then 1 else 0),
      phase_fract = phase_fract a + phase_fract b\<rparr>"

section \<open>Interpolation\<close>

text \<open>
  The coefficient tables \<open>interp_coeff_linear\<close>, \<open>interp_coeff\<close> and \<open>sinc_table7\<close>, and
  the macro \<open>fluid_phase_fract_to_tablerow\<close> that selects a row from the fractional
  phase, are defined outside the sources; they are parameters of the model.
\<close>

record interp_tables =
  fract_to_tablerow :: "32 word \<Rightarrow> nat"
  interp_coeff_linear :: "nat \<Rightarrow> fluid_real_t \<times> fluid_real_t"
  interp_coeff :: "nat \<Rightarrow> fluid_real_t \<times> fluid_real_t \<times> fluid_real_t \<times> fluid_real_t"
  sinc_table7 :: "nat \<Rightarrow> nat \<Rightarrow> fluid_real_t"

definition fluid_phase_fract_to_tablerow :: "interp_tables \<Rightarrow> fluid_phase_t \<Rightarrow> nat" where
  "fluid_phase_fract_to_tablerow T p = fract_to_tablerow T (fluid_phase_fract p)"

text \<open>
  The values of \<open>dsp_interp_method\<close>. The \<open>switch\<close> sends every value without a case
  of its own to the 4th-order loop (\<open>default\<close>); \<open>FLUID_INTERP_OTHER\<close> stands for them.
\<close>

datatype fluid_interp =
    FLUID_INTERP_NONE
  | FLUID_INTERP_LINEAR
  | FLUID_INTERP_4THORDER
  | FLUID_INTERP_7THORDER
  | FLUID_INTERP_OTHER

text \<open>The variables that the interpolation loops change.\<close>

record dsp_state =
  dsp_buf :: "fluid_real_t list"
  dsp_amp :: fluid_real_t
  dsp_phase :: fluid_phase_t

text \<open>
  The special case: the phase falls on a sample and the step is exactly one sample.
  \<^verbatim>\<open>dsp_buf[dsp_i] = dsp_amp * dsp_data[fluid_phase_index_plusplus(dsp_phase)];\<close>
  \<^verbatim>\<open>dsp_amp += dsp_amp_incr;\<close>
\<close>

function fast_loop ::
  "rounding \<Rightarrow> 16 word list \<Rightarrow> fluid_real_t \<Rightarrow> nat \<Rightarrow> nat \<Rightarrow> dsp_state \<Rightarrow> dsp_state option" where
  "fast_loop rnd dsp_data dsp_amp_incr dsp_i dsp_end s =
     (if dsp_i < dsp_end then
        do {
          x \<leftarrow> data_read dsp_data (fst (fluid_phase_index_plusplus (dsp_phase s)));
          b \<leftarrow> buf_write (dsp_buf s) dsp_i (rnd (dsp_amp s * x));
          fast_loop rnd dsp_data dsp_amp_incr (Suc dsp_i) dsp_end
            \<lparr>dsp_buf = b, dsp_amp = rnd (dsp_amp s + dsp_amp_incr),
             dsp_phase = snd (fluid_phase_index_plusplus (dsp_phase s))\<rparr>
        }
      else Some s)"
  by pat_completeness auto
termination
  by (relation "measure (\<lambda>(r, d, a, i, e, s). e - i)") auto

text \<open>
  The value that each loop of the \<open>switch\<close> multiplies with the amplitude, as a function
  of the phase: the nearest sample, and the weighted sums of 2, 4 and 7 samples. The
  sums are evaluated from left to right.
\<close>

definition point_none :: "16 word list \<Rightarrow> fluid_phase_t \<Rightarrow> fluid_real_t option" where
  "point_none dsp_data p = data_read dsp_data (fluid_phase_index p)"

definition point_linear ::
  "rounding \<Rightarrow> interp_tables \<Rightarrow> 16 word list \<Rightarrow> fluid_phase_t \<Rightarrow> fluid_real_t option" where
  "point_linear rnd T dsp_data p =
     (case interp_coeff_linear T (fluid_phase_fract_to_tablerow T p) of (c0, c1) \<Rightarrow>
        do {
          x0 \<leftarrow> data_read dsp_data (fluid_phase_index p);
          x1 \<leftarrow> data_read dsp_data (fluid_phase_index p + 1);
          Some (rnd (rnd (c0 * x0) + rnd (c1 * x1)))
        })"

definition point_4thorder ::
  "rounding \<Rightarrow> interp_tables \<Rightarrow> 16 word list \<Rightarrow> fluid_phase_t \<Rightarrow> fluid_real_t option" where
  "point_4thorder rnd T dsp_data p =
     (case interp_coeff T (fluid_phase_fract_to_tablerow T p) of (c0, c1, c2, c3) \<Rightarrow>
        do {
          x0 \<leftarrow> data_read dsp_data (fluid_phase_index p);
          x1 \<leftarrow> data_read dsp_data (fluid_phase_index p + 1);
          x2 \<leftarrow> data_read dsp_data (fluid_phase_index p + 2);
          x3 \<leftarrow> data_read dsp_data (fluid_phase_index p + 3);
          Some (rnd (rnd (rnd (rnd (c0 * x0) + rnd (c1 * x1)) + rnd (c2 * x2)) + rnd (c3 * x3)))
        })"

definition point_7thorder ::
  "rounding \<Rightarrow> interp_tables \<Rightarrow> 16 word list \<Rightarrow> fluid_phase_t \<Rightarrow> fluid_real_t option" where
  "point_7thorder rnd T dsp_data p =
     (let fract = fluid_phase_fract_to_tablerow T p in
        do {
          x0 \<leftarrow> data_read dsp_data (fluid_phase_index p);
          x1 \<leftarrow> data_read dsp_data (fluid_phase_index p + 1);
          x2 \<leftarrow> data_read dsp_data (fluid_phase_index p + 2);
          x3 \<leftarrow> data_read dsp_data (fluid_phase_index p + 3);
          x4 \<leftarrow> data_read dsp_data (fluid_phase_index p + 4);
          x5 \<leftarrow> data_read dsp_data (fluid_phase_index p + 5);
          x6 \<leftarrow> data_read dsp_data (fluid_phase_index p + 6);
          Some (rnd (rnd (rnd (rnd (rnd (rnd (rnd (sinc_table7 T 0 fract * x0)
                                              + rnd (sinc_table7 T 1 fract * x1))
                                         + rnd (sinc_table7 T 2 fract * x2))
                                    + rnd (sinc_table7 T 3 fract * x3))
                               + rnd (sinc_table7 T 4 fract * x4))
                          + rnd (sinc_table7 T 5 fract * x5))
                     + rnd (sinc_table7 T 6 fract * x6)))
        })"

text \<open>
  The four loops of the \<open>switch\<close> have one shape and differ in the interpolated value
  \<open>point\<close> only:
  \<^verbatim>\<open>dsp_buf[dsp_i] = dsp_amp * point;\<close>
  \<^verbatim>\<open>fluid_phase_incr(dsp_phase, dsp_phase_incr); dsp_amp += dsp_amp_incr;\<close>
\<close>

function interp_loop ::
  "rounding \<Rightarrow> (fluid_phase_t \<Rightarrow> fluid_real_t option) \<Rightarrow> fluid_phase_t \<Rightarrow> fluid_real_t
   \<Rightarrow> nat \<Rightarrow> nat \<Rightarrow> dsp_state \<Rightarrow> dsp_state option" where
  "interp_loop rnd point dsp_phase_incr dsp_amp_incr dsp_i dsp_end s =
     (if dsp_i < dsp_end then
        do {
          x \<leftarrow> point (dsp_phase s);
          b \<leftarrow> buf_write (dsp_buf s) dsp_i (rnd (dsp_amp s * x));
          interp_loop rnd point dsp_phase_incr dsp_amp_incr (Suc dsp_i) dsp_end
            \<lparr>dsp_buf = b, dsp_amp = rnd (dsp_amp s + dsp_amp_incr),
             dsp_phase = fluid_phase_incr (dsp_phase s) dsp_phase_incr\<rparr>
        }
      else Some s)"
  by pat_completeness auto
termination
  by (relation "measure (\<lambda>(r, f, p, a, i, e, s). e - i)") auto

text \<open>
  The interpolation stage: the special case, or the loop that the method selects. (The
  SSE version of the 4th-order loop is switched off in the source by \<^verbatim>\<open>if (0 && ...)\<close>.)
\<close>

definition dsp_interpolate ::
  "rounding \<Rightarrow> interp_tables \<Rightarrow> fluid_interp \<Rightarrow> 16 word list \<Rightarrow> fluid_phase_t \<Rightarrow> fluid_real_t
   \<Rightarrow> nat \<Rightarrow> nat \<Rightarrow> dsp_state \<Rightarrow> dsp_state option" where
  "dsp_interpolate rnd T dsp_interp_method dsp_data dsp_phase_incr dsp_amp_incr dsp_start dsp_end s =
     (if fluid_phase_fract (dsp_phase s) = 0
         \<and> fluid_phase_fract dsp_phase_incr = 0
         \<and> fluid_phase_index dsp_phase_incr = 1
      then fast_loop rnd dsp_data dsp_amp_incr dsp_start dsp_end s
      else
        (case dsp_interp_method of
           FLUID_INTERP_NONE \<Rightarrow>
             interp_loop rnd (point_none dsp_data) dsp_phase_incr dsp_amp_incr dsp_start dsp_end s
         | FLUID_INTERP_LINEAR \<Rightarrow>
             interp_loop rnd (point_linear rnd T dsp_data) dsp_phase_incr dsp_amp_incr
               dsp_start dsp_end s
         | FLUID_INTERP_7THORDER \<Rightarrow>
             interp_loop rnd (point_7thorder rnd T dsp_data) dsp_phase_incr dsp_amp_incr
               dsp_start dsp_end s
         | _ \<Rightarrow>
             interp_loop rnd (point_4thorder rnd T dsp_data) dsp_phase_incr dsp_amp_incr
               dsp_start dsp_end s))"

text \<open>
  The number of consecutive samples, from the index of the phase on, that one pass of the
  stage reads from \<open>dsp_data\<close>: one in the special case, and otherwise 1, 2, 4 or 7 with
  the method.
\<close>

definition samples_read :: "fluid_interp \<Rightarrow> fluid_phase_t \<Rightarrow> fluid_phase_t \<Rightarrow> int" where
  "samples_read dsp_interp_method dsp_phase0 dsp_phase_incr =
     (if fluid_phase_fract dsp_phase0 = 0
         \<and> fluid_phase_fract dsp_phase_incr = 0
         \<and> fluid_phase_index dsp_phase_incr = 1
      then 1
      else
        (case dsp_interp_method of
           FLUID_INTERP_NONE \<Rightarrow> 1
         | FLUID_INTERP_LINEAR \<Rightarrow> 2
         | FLUID_INTERP_7THORDER \<Rightarrow> 7
         | _ \<Rightarrow> 4))"

section \<open>The denormal flush\<close>

text \<open>
  \<open>zap_almost_zero\<close> has one definition per build. With \<open>WITH_FLOAT\<close> the sample is a
  \<open>float\<close> and the macro tests the exponent field of its bit pattern:
  \<^verbatim>\<open>(((*(unsigned int*)&(sample))&0x7f800000) < 0x08000000)?0.0f:(sample)\<close>
  The model works on the 32 bits of the \<open>float\<close>; the bits of \<open>0.0f\<close> are all zero.
\<close>

definition zap_almost_zero_float :: "32 word \<Rightarrow> 32 word" where
  "zap_almost_zero_float sample =
     (if (sample AND 0x7f800000) < 0x08000000 then 0 else sample)"

text \<open>
  The bits of a \<open>float\<close> (IEEE 754 single precision): a sign bit, an exponent field of 8
  bits and a fraction of 23 bits. The magnitude is counted here in units of \<open>2 ^ - 149\<close>,
  the smallest denormal, which makes it a natural number: the fraction itself when the
  exponent field is 0, and \<open>(2 ^ 23 + fraction) * 2 ^ (exponent - 1)\<close> otherwise.
\<close>

definition float_exponent :: "32 word \<Rightarrow> nat" where
  "float_exponent w = unat (drop_bit 23 w AND 0xFF)"

definition float_fraction :: "32 word \<Rightarrow> nat" where
  "float_fraction w = unat (w AND 0x7FFFFF)"

definition float_magnitude :: "32 word \<Rightarrow> nat" where
  "float_magnitude w =
     (if float_exponent w = 0 then float_fraction w
      else (2 ^ 23 + float_fraction w) * 2 ^ (float_exponent w - 1))"

text \<open>
  Without \<open>WITH_FLOAT\<close> the sample is a \<open>double\<close> and the macro is
  \<^verbatim>\<open>abs(sample)<1e-20?0:sample;\<close>
  \<open>abs\<close> is the function \<open>int abs(int)\<close> of the C library: its argument is converted
  from \<open>double\<close> to \<open>int\<close>, which drops the fraction (truncation toward zero) and is
  undefined when the truncated value is not an \<open>int\<close> (32 bits); \<open>abs\<close> itself is
  undefined on the smallest \<open>int\<close>. The \<open>int\<close> result is compared with \<open>1e-20\<close>.
\<close>

definition c_double_to_int :: "real \<Rightarrow> int option" where
  "c_double_to_int x =
     (let n = (if 0 \<le> x then \<lfloor>x\<rfloor> else \<lceil>x\<rceil>)
      in if - 2147483648 \<le> n \<and> n \<le> 2147483647 then Some n else None)"

definition c_abs :: "int \<Rightarrow> int option" where
  "c_abs n = (if n = - 2147483648 then None else Some \<bar>n\<bar>)"

definition zap_almost_zero_double :: "real \<Rightarrow> real option" where
  "zap_almost_zero_double sample =
     do {
       n \<leftarrow> c_double_to_int sample;
       m \<leftarrow> c_abs n;
       Some (if real_of_int m < 1 / 10 ^ 20 then 0 else sample)
     }"

section \<open>The filter\<close>

text \<open>
  The fields of the voice that the filter, the pan and the sends read or write.
  \<open>filter_coeff_incr_count\<close> is a C \<open>int\<close>; it is modelled as an unbounded integer (a
  block that starts with a positive count ends with a count above \<open>- dsp_end\<close>, so the
  decrement does not overflow).
\<close>

record fluid_voice =
  a1 :: fluid_real_t
  a2 :: fluid_real_t
  b02 :: fluid_real_t
  b1 :: fluid_real_t
  a1_incr :: fluid_real_t
  a2_incr :: fluid_real_t
  b02_incr :: fluid_real_t
  b1_incr :: fluid_real_t
  filter_coeff_incr_count :: int
  amp_left :: fluid_real_t
  amp_right :: fluid_real_t
  pan :: fluid_real_t
  amp_reverb :: fluid_real_t
  amp_chorus :: fluid_real_t

text \<open>The local variables of the filter.\<close>

record filter_vars =
  dsp_a1 :: fluid_real_t
  dsp_a2 :: fluid_real_t
  dsp_b02 :: fluid_real_t
  dsp_b1 :: fluid_real_t
  dsp_hist1 :: fluid_real_t
  dsp_hist2 :: fluid_real_t
  dsp_filter_coeff_incr_count :: int

text \<open>
  The loop for a filter that is changing towards its new setting:
  \<^verbatim>\<open>dsp_centernode = dsp_buf[dsp_i] - dsp_a1 * dsp_hist1 - dsp_a2 * dsp_hist2;\<close>
  \<^verbatim>\<open>dsp_buf[dsp_i] = dsp_b02 * (dsp_centernode + dsp_hist2) + dsp_b1 * dsp_hist1;\<close>
  The test \<^verbatim>\<open>dsp_filter_coeff_incr_count-- > 0\<close> compares the count before the
  decrement, and the decrement takes place on every pass. Each \<^verbatim>\<open>+=\<close> of a coefficient
  is one rounded addition.
\<close>

function filter_incr_loop ::
  "rounding \<Rightarrow> fluid_real_t \<Rightarrow> fluid_real_t \<Rightarrow> fluid_real_t \<Rightarrow> fluid_real_t \<Rightarrow> nat \<Rightarrow> nat
   \<Rightarrow> filter_vars \<Rightarrow> fluid_real_t list \<Rightarrow> (filter_vars \<times> fluid_real_t list) option" where
  "filter_incr_loop rnd dsp_a1_incr dsp_a2_incr dsp_b02_incr dsp_b1_incr dsp_i dsp_end f buf =
     (if dsp_i < dsp_end then
        do {
          x \<leftarrow> buf_read buf dsp_i;
          let dsp_centernode =
                rnd (rnd (x - rnd (dsp_a1 f * dsp_hist1 f)) - rnd (dsp_a2 f * dsp_hist2 f));
          let out = rnd (rnd (dsp_b02 f * rnd (dsp_centernode + dsp_hist2 f))
                         + rnd (dsp_b1 f * dsp_hist1 f));
          let f1 = f\<lparr>dsp_hist2 := dsp_hist1 f, dsp_hist1 := dsp_centernode,
                     dsp_filter_coeff_incr_count := dsp_filter_coeff_incr_count f - 1\<rparr>;
          let f2 = (if dsp_filter_coeff_incr_count f > 0
                    then f1\<lparr>dsp_a1 := rnd (dsp_a1 f + dsp_a1_incr),
                            dsp_a2 := rnd (dsp_a2 f + dsp_a2_incr),
                            dsp_b02 := rnd (dsp_b02 f + dsp_b02_incr),
                            dsp_b1 := rnd (dsp_b1 f + dsp_b1_incr)\<rparr>
                    else f1);
          filter_incr_loop rnd dsp_a1_incr dsp_a2_incr dsp_b02_incr dsp_b1_incr (Suc dsp_i) dsp_end
            f2 (buf[dsp_i := out])
        }
      else Some (f, buf))"
  by pat_completeness auto
termination
  by (relation "measure (\<lambda>(r, i1, i2, i3, i4, i, e, f, b). e - i)") auto

text \<open>The loop for constant filter parameters.\<close>

function filter_fixed_loop ::
  "rounding \<Rightarrow> nat \<Rightarrow> nat \<Rightarrow> filter_vars \<Rightarrow> fluid_real_t list
   \<Rightarrow> (filter_vars \<times> fluid_real_t list) option" where
  "filter_fixed_loop rnd dsp_i dsp_end f buf =
     (if dsp_i < dsp_end then
        do {
          x \<leftarrow> buf_read buf dsp_i;
          let dsp_centernode =
                rnd (rnd (x - rnd (dsp_a1 f * dsp_hist1 f)) - rnd (dsp_a2 f * dsp_hist2 f));
          let out = rnd (rnd (dsp_b02 f * rnd (dsp_centernode + dsp_hist2 f))
                         + rnd (dsp_b1 f * dsp_hist1 f));
          filter_fixed_loop rnd (Suc dsp_i) dsp_end
            (f\<lparr>dsp_hist2 := dsp_hist1 f, dsp_hist1 := dsp_centernode\<rparr>) (buf[dsp_i := out])
        }
      else Some (f, buf))"
  by pat_completeness auto
termination
  by (relation "measure (\<lambda>(r, i, e, f, b). e - i)") auto

text \<open>
  The filter stage. The flush \<open>zap\<close> of \<open>dsp_hist1\<close> is a parameter, because the macro
  depends on the build. The changing loop stores the coefficients and the count back
  into the voice; the constant loop stores nothing.
\<close>

definition dsp_filter ::
  "rounding \<Rightarrow> (fluid_real_t \<Rightarrow> fluid_real_t option) \<Rightarrow> bool \<Rightarrow> fluid_voice \<Rightarrow> nat \<Rightarrow> nat
   \<Rightarrow> filter_vars \<Rightarrow> fluid_real_t list
   \<Rightarrow> (fluid_voice \<times> filter_vars \<times> fluid_real_t list) option" where
  "dsp_filter rnd zap dsp_use_filter_flag voice dsp_start dsp_end f buf =
     (if dsp_use_filter_flag then
        do {
          h \<leftarrow> zap (dsp_hist1 f);
          let f0 = f\<lparr>dsp_hist1 := h\<rparr>;
          if dsp_filter_coeff_incr_count f0 > 0 then
            do {
              (f', buf') \<leftarrow>
                filter_incr_loop rnd (a1_incr voice) (a2_incr voice) (b02_incr voice)
                  (b1_incr voice) dsp_start dsp_end f0 buf;
              Some (voice\<lparr>a1 := dsp_a1 f', a2 := dsp_a2 f', b02 := dsp_b02 f', b1 := dsp_b1 f',
                          filter_coeff_incr_count := dsp_filter_coeff_incr_count f'\<rparr>,
                    f', buf')
            }
          else
            do {
              (f', buf') \<leftarrow> filter_fixed_loop rnd dsp_start dsp_end f0 buf;
              Some (voice, f', buf')
            }
        }
      else Some (voice, f, buf))"

text \<open>
  The filter as the specification words it, for comparison with the loops above:
  \<open>centernode = in - a1 * hist1 - a2 * hist2\<close>,
  \<open>out = b02 * (centernode + hist2) + b1 * hist1\<close>, then \<open>hist2\<close> takes \<open>hist1\<close> and
  \<open>hist1\<close> takes \<open>centernode\<close>; in the transitioning mode a fixed increment is added to
  each of \<open>a1\<close>, \<open>a2\<close>, \<open>b02\<close>, \<open>b1\<close> after each output sample, until the remaining
  count reaches zero. The operations are those of the sample type of the build: each
  rounds its result with \<open>rnd\<close>.
\<close>

record spec_filter =
  spec_a1 :: real
  spec_a2 :: real
  spec_b02 :: real
  spec_b1 :: real
  spec_hist1 :: real
  spec_hist2 :: real
  spec_count :: nat

definition spec_direct_form_II :: "rounding \<Rightarrow> spec_filter \<Rightarrow> real \<Rightarrow> real \<times> spec_filter" where
  "spec_direct_form_II rnd c x =
     (let centernode = rnd (rnd (x - rnd (spec_a1 c * spec_hist1 c)) - rnd (spec_a2 c * spec_hist2 c));
          out = rnd (rnd (spec_b02 c * rnd (centernode + spec_hist2 c))
                     + rnd (spec_b1 c * spec_hist1 c))
      in (out, c\<lparr>spec_hist2 := spec_hist1 c, spec_hist1 := centernode\<rparr>))"

definition spec_glide ::
  "rounding \<Rightarrow> real \<times> real \<times> real \<times> real \<Rightarrow> spec_filter \<Rightarrow> spec_filter" where
  "spec_glide rnd incr c =
     (case incr of (i1, i2, i3, i4) \<Rightarrow>
        if spec_count c = 0 then c
        else c\<lparr>spec_a1 := rnd (spec_a1 c + i1), spec_a2 := rnd (spec_a2 c + i2),
               spec_b02 := rnd (spec_b02 c + i3), spec_b1 := rnd (spec_b1 c + i4),
               spec_count := spec_count c - 1\<rparr>)"

fun spec_filter_block ::
  "rounding \<Rightarrow> real \<times> real \<times> real \<times> real \<Rightarrow> spec_filter \<Rightarrow> real list
   \<Rightarrow> real list \<times> spec_filter" where
  "spec_filter_block rnd incr c [] = ([], c)"
| "spec_filter_block rnd incr c (x # xs) =
     (case spec_direct_form_II rnd c x of (out, c') \<Rightarrow>
        case spec_filter_block rnd incr (spec_glide rnd incr c') xs of (outs, c'') \<Rightarrow>
          (out # outs, c''))"

text \<open>
  The local variables of the filter, read as a state of the specification's filter. A
  count that is zero or negative is a finished transition.
\<close>

definition filter_abs :: "filter_vars \<Rightarrow> spec_filter" where
  "filter_abs f =
     \<lparr>spec_a1 = dsp_a1 f, spec_a2 = dsp_a2 f, spec_b02 = dsp_b02 f, spec_b1 = dsp_b1 f,
      spec_hist1 = dsp_hist1 f, spec_hist2 = dsp_hist2 f,
      spec_count = nat (dsp_filter_coeff_incr_count f)\<rparr>"

section \<open>Pan and sends\<close>

text \<open>
  The stage has two versions. With \<open>ENABLE_SSE\<close>, a block that is the whole buffer
  (\<^verbatim>\<open>(FLUID_BUFSIZE % 4 == 0) && (dsp_start == 0) && (dsp_end == FLUID_BUFSIZE)\<close>) is mixed
  by the SSE version; every other block, and every block of a build without \<open>ENABLE_SSE\<close>,
  is mixed by the standard version. \<open>ENABLE_SSE\<close> and \<open>FLUID_BUFSIZE\<close> are parameters of the
  model. The destination buffers are distinct arrays, none of them \<open>dsp_buf\<close>.
\<close>

definition sse_block :: "bool \<Rightarrow> nat \<Rightarrow> nat \<Rightarrow> nat \<Rightarrow> bool" where
  "sse_block ENABLE_SSE FLUID_BUFSIZE dsp_start dsp_end \<longleftrightarrow>
     ENABLE_SSE \<and> FLUID_BUFSIZE mod 4 = 0 \<and> dsp_start = 0 \<and> dsp_end = FLUID_BUFSIZE"

text \<open>
  The standard version, centered voice:
  \<^verbatim>\<open>float v = voice->amp_left * dsp_buf[dsp_i];\<close>
  \<^verbatim>\<open>dsp_left_buf[dsp_i] += v; dsp_right_buf[dsp_i] += v;\<close>
  The product is one of \<open>fluid_real_t\<close>; \<open>v\<close> is a \<open>float\<close> in either build, so the product
  is converted to \<open>float\<close> (\<open>round_float\<close>) before it is added.
\<close>

function centered_loop ::
  "rounding \<Rightarrow> fluid_real_t \<Rightarrow> fluid_real_t list \<Rightarrow> nat \<Rightarrow> nat \<Rightarrow> fluid_real_t list
   \<Rightarrow> fluid_real_t list \<Rightarrow> (fluid_real_t list \<times> fluid_real_t list) option" where
  "centered_loop rnd gain buf dsp_i dsp_end dsp_left_buf dsp_right_buf =
     (if dsp_i < dsp_end then
        do {
          x \<leftarrow> buf_read buf dsp_i;
          let v = round_float (rnd (gain * x));
          l \<leftarrow> buf_read dsp_left_buf dsp_i;
          r \<leftarrow> buf_read dsp_right_buf dsp_i;
          centered_loop rnd gain buf (Suc dsp_i) dsp_end
            (dsp_left_buf[dsp_i := rnd (l + v)]) (dsp_right_buf[dsp_i := rnd (r + v)])
        }
      else Some (dsp_left_buf, dsp_right_buf))"
  by pat_completeness auto
termination
  by (relation "measure (\<lambda>(n, g, b, i, e, l, r). e - i)") auto

text \<open>
  The standard version, the loop of one channel or send, with its gain:
  \<^verbatim>\<open>dest[dsp_i] += gain * dsp_buf[dsp_i];\<close>
\<close>

function mix_loop ::
  "rounding \<Rightarrow> fluid_real_t \<Rightarrow> fluid_real_t list \<Rightarrow> nat \<Rightarrow> nat \<Rightarrow> fluid_real_t list
   \<Rightarrow> fluid_real_t list option" where
  "mix_loop rnd gain buf dsp_i dsp_end dest =
     (if dsp_i < dsp_end then
        do {
          x \<leftarrow> buf_read buf dsp_i;
          d \<leftarrow> buf_read dest dsp_i;
          mix_loop rnd gain buf (Suc dsp_i) dsp_end (dest[dsp_i := rnd (d + rnd (gain * x))])
        }
      else Some dest)"
  by pat_completeness auto
termination
  by (relation "measure (\<lambda>(r, g, b, i, e, d). e - i)") auto

text \<open>
  Modelled from the spec: the SSE version. The type \<open>sse_t\<close> and the macros of the SSE
  instructions (\<open>movaps_m2r\<close>, \<open>mulps_r2r\<close>, \<open>addps_m2r\<close>, \<open>movaps_r2m\<close>) are not among the
  sources; the specification gives a vectorized path the numeric effect of the scalar
  one. A register holds four consecutive values of a buffer. One pass of the loop loads
  four samples of \<open>dsp_buf\<close> (\<open>Load original sample\<close>), multiplies them with the gain
  (\<open>Gain\<close>), adds the four values of the destination (\<open>Mix with buf\<close>) and stores the four
  sums there (\<open>Store in buf\<close>); then \<open>dsp_i\<close> advances by 4. The registers hold \<open>float\<close>
  values: this version belongs to the build in which \<open>fluid_real_t\<close> is \<open>float\<close>, and its
  operations round as those of \<open>fluid_real_t\<close> do.
\<close>

definition sse_mul_add ::
  "rounding \<Rightarrow> fluid_real_t \<Rightarrow> fluid_real_t list \<Rightarrow> fluid_real_t list \<Rightarrow> nat \<Rightarrow> fluid_real_t" where
  "sse_mul_add rnd gain buf dest k = rnd (rnd (buf ! k * gain) + dest ! k)"

function sse_mix_loop ::
  "rounding \<Rightarrow> fluid_real_t \<Rightarrow> fluid_real_t list \<Rightarrow> nat \<Rightarrow> nat \<Rightarrow> fluid_real_t list
   \<Rightarrow> fluid_real_t list option" where
  "sse_mix_loop rnd gain buf dsp_i FLUID_BUFSIZE dest =
     (if dsp_i < FLUID_BUFSIZE then
        if dsp_i + 4 \<le> length buf \<and> dsp_i + 4 \<le> length dest then
          sse_mix_loop rnd gain buf (dsp_i + 4) FLUID_BUFSIZE
            (dest[dsp_i := sse_mul_add rnd gain buf dest dsp_i,
                  dsp_i + 1 := sse_mul_add rnd gain buf dest (dsp_i + 1),
                  dsp_i + 2 := sse_mul_add rnd gain buf dest (dsp_i + 2),
                  dsp_i + 3 := sse_mul_add rnd gain buf dest (dsp_i + 3)])
        else None
      else Some dest)"
  by pat_completeness auto
termination
  by (relation "measure (\<lambda>(r, g, b, i, e, d). e - i)") auto

text \<open>
  The pan of the SSE version: a loop per channel whose gain is not zero; the pan value is
  not tested, and the right channel has the gain \<open>amp_right\<close>.
\<close>

definition dsp_pan_sse ::
  "nat \<Rightarrow> rounding \<Rightarrow> fluid_voice \<Rightarrow> fluid_real_t list \<Rightarrow> fluid_real_t list \<Rightarrow> fluid_real_t list
   \<Rightarrow> (fluid_real_t list \<times> fluid_real_t list) option" where
  "dsp_pan_sse FLUID_BUFSIZE rnd voice buf dsp_left_buf dsp_right_buf =
     do {
       l \<leftarrow> (if amp_left voice \<noteq> 0
             then sse_mix_loop rnd (amp_left voice) buf 0 FLUID_BUFSIZE dsp_left_buf
             else Some dsp_left_buf);
       r \<leftarrow> (if amp_right voice \<noteq> 0
             then sse_mix_loop rnd (amp_right voice) buf 0 FLUID_BUFSIZE dsp_right_buf
             else Some dsp_right_buf);
       Some (l, r)
     }"

text \<open>
  The pan of the standard version: the centered loop when the pan lies strictly between
  -0.5 and 0.5, and otherwise a loop per channel whose gain is not zero.
\<close>

definition dsp_pan_standard ::
  "rounding \<Rightarrow> fluid_voice \<Rightarrow> fluid_real_t list \<Rightarrow> nat \<Rightarrow> nat \<Rightarrow> fluid_real_t list
   \<Rightarrow> fluid_real_t list \<Rightarrow> (fluid_real_t list \<times> fluid_real_t list) option" where
  "dsp_pan_standard rnd voice buf dsp_start dsp_end dsp_left_buf dsp_right_buf =
     (if pan voice < 0.5 \<and> pan voice > - 0.5 then
        centered_loop rnd (amp_left voice) buf dsp_start dsp_end dsp_left_buf dsp_right_buf
      else
        do {
          l \<leftarrow> (if amp_left voice \<noteq> 0
                then mix_loop rnd (amp_left voice) buf dsp_start dsp_end dsp_left_buf
                else Some dsp_left_buf);
          r \<leftarrow> (if amp_right voice \<noteq> 0
                then mix_loop rnd (amp_right voice) buf dsp_start dsp_end dsp_right_buf
                else Some dsp_right_buf);
          Some (l, r)
        })"

definition dsp_pan ::
  "bool \<Rightarrow> nat \<Rightarrow> rounding \<Rightarrow> fluid_voice \<Rightarrow> fluid_real_t list \<Rightarrow> nat \<Rightarrow> nat
   \<Rightarrow> fluid_real_t list \<Rightarrow> fluid_real_t list
   \<Rightarrow> (fluid_real_t list \<times> fluid_real_t list) option" where
  "dsp_pan ENABLE_SSE FLUID_BUFSIZE rnd voice buf dsp_start dsp_end dsp_left_buf dsp_right_buf =
     (if sse_block ENABLE_SSE FLUID_BUFSIZE dsp_start dsp_end
      then dsp_pan_sse FLUID_BUFSIZE rnd voice buf dsp_left_buf dsp_right_buf
      else dsp_pan_standard rnd voice buf dsp_start dsp_end dsp_left_buf dsp_right_buf)"

text \<open>
  A send buffer may be \<open>NULL\<close>:
  \<^verbatim>\<open>if (dsp_reverb_buf && voice->amp_reverb != 0.0)\<close>
  The test is the same in the two versions; the loop is the one of the version.
\<close>

datatype send_buf = NULL | Buf "fluid_real_t list"

definition dsp_send ::
  "bool \<Rightarrow> nat \<Rightarrow> rounding \<Rightarrow> fluid_real_t \<Rightarrow> fluid_real_t list \<Rightarrow> nat \<Rightarrow> nat \<Rightarrow> send_buf
   \<Rightarrow> send_buf option" where
  "dsp_send ENABLE_SSE FLUID_BUFSIZE rnd gain buf dsp_start dsp_end dest =
     (case dest of
        NULL \<Rightarrow> Some NULL
      | Buf d \<Rightarrow>
          if gain \<noteq> 0 then
            (if sse_block ENABLE_SSE FLUID_BUFSIZE dsp_start dsp_end
             then map_option Buf (sse_mix_loop rnd gain buf 0 FLUID_BUFSIZE d)
             else map_option Buf (mix_loop rnd gain buf dsp_start dsp_end d))
          else Some (Buf d))"

definition dsp_reverb_send ::
  "bool \<Rightarrow> nat \<Rightarrow> rounding \<Rightarrow> fluid_voice \<Rightarrow> fluid_real_t list \<Rightarrow> nat \<Rightarrow> nat \<Rightarrow> send_buf
   \<Rightarrow> send_buf option" where
  "dsp_reverb_send ENABLE_SSE FLUID_BUFSIZE rnd voice buf dsp_start dsp_end dsp_reverb_buf =
     dsp_send ENABLE_SSE FLUID_BUFSIZE rnd (amp_reverb voice) buf dsp_start dsp_end dsp_reverb_buf"

definition dsp_chorus_send ::
  "bool \<Rightarrow> nat \<Rightarrow> rounding \<Rightarrow> fluid_voice \<Rightarrow> fluid_real_t list \<Rightarrow> nat \<Rightarrow> nat \<Rightarrow> send_buf
   \<Rightarrow> send_buf option" where
  "dsp_chorus_send ENABLE_SSE FLUID_BUFSIZE rnd voice buf dsp_start dsp_end dsp_chorus_buf =
     dsp_send ENABLE_SSE FLUID_BUFSIZE rnd (amp_chorus voice) buf dsp_start dsp_end dsp_chorus_buf"

section \<open>The whole block\<close>

text \<open>
  The stages in the order of the file: interpolation into \<open>dsp_buf\<close>, the filter on
  \<open>dsp_buf\<close> in place, pan, reverb send and chorus send from the filtered \<open>dsp_buf\<close>. The
  source tests once whether the block goes to the SSE version of pan and sends; the model
  tests it in the pan and in each send, with the same outcome.
\<close>

definition fluid_dsp_core ::
  "bool \<Rightarrow> nat \<Rightarrow> rounding \<Rightarrow> (fluid_real_t \<Rightarrow> fluid_real_t option) \<Rightarrow> interp_tables
   \<Rightarrow> fluid_interp \<Rightarrow> 16 word list \<Rightarrow> fluid_phase_t
   \<Rightarrow> fluid_real_t \<Rightarrow> bool \<Rightarrow> nat \<Rightarrow> nat \<Rightarrow> fluid_voice \<Rightarrow> filter_vars \<Rightarrow> dsp_state
   \<Rightarrow> fluid_real_t list \<Rightarrow> fluid_real_t list \<Rightarrow> send_buf \<Rightarrow> send_buf
   \<Rightarrow> (dsp_state \<times> fluid_voice \<times> filter_vars \<times> fluid_real_t list \<times> fluid_real_t list
       \<times> send_buf \<times> send_buf) option" where
  "fluid_dsp_core ENABLE_SSE FLUID_BUFSIZE rnd zap T dsp_interp_method dsp_data dsp_phase_incr
     dsp_amp_incr dsp_use_filter_flag dsp_start dsp_end voice f s
     dsp_left_buf dsp_right_buf dsp_reverb_buf dsp_chorus_buf =
     do {
       s1 \<leftarrow> dsp_interpolate rnd T dsp_interp_method dsp_data dsp_phase_incr dsp_amp_incr
               dsp_start dsp_end s;
       (voice1, f1, buf1) \<leftarrow>
         dsp_filter rnd zap dsp_use_filter_flag voice dsp_start dsp_end f (dsp_buf s1);
       (l, r) \<leftarrow> dsp_pan ENABLE_SSE FLUID_BUFSIZE rnd voice1 buf1 dsp_start dsp_end
                   dsp_left_buf dsp_right_buf;
       rb \<leftarrow> dsp_reverb_send ENABLE_SSE FLUID_BUFSIZE rnd voice1 buf1 dsp_start dsp_end
               dsp_reverb_buf;
       cb \<leftarrow> dsp_chorus_send ENABLE_SSE FLUID_BUFSIZE rnd voice1 buf1 dsp_start dsp_end
               dsp_chorus_buf;
       Some (s1\<lparr>dsp_buf := buf1\<rparr>, voice1, f1, l, r, rb, cb)
     }"

section \<open>The sample accessor of the rvoice header\<close>

text \<open>
  \<open>fluid_rvoice_get_sample\<close>: \<open>dsp_msb\<close> points to signed 16-bit values, \<open>dsp_lsb\<close> to
  bytes and may be \<open>NULL\<close> (\<open>None\<close>). The cast of a \<open>short\<close> to \<open>uint32_t\<close> extends the
  sign (\<open>scast\<close>); the cast of a \<open>char\<close> to \<open>uint8_t\<close> keeps the byte, whatever the
  signedness of \<open>char\<close>; the shift and the or are those of \<open>uint32_t\<close>; the result is
  read as \<open>int32_t\<close> (\<open>sint\<close>). An index outside an array is undefined: \<open>None\<close>.
\<close>

definition fluid_rvoice_get_sample ::
  "16 word list \<Rightarrow> 8 word list option \<Rightarrow> nat \<Rightarrow> 32 word option" where
  "fluid_rvoice_get_sample dsp_msb dsp_lsb idx =
     (if idx < length dsp_msb then
        (let msb = (scast (dsp_msb ! idx) :: 32 word) in
           case dsp_lsb of
             None \<Rightarrow> Some (push_bit 8 msb OR ucast (0 :: 8 word))
           | Some bytes \<Rightarrow>
               if idx < length bytes
               then Some (push_bit 8 msb OR ucast (bytes ! idx))
               else None)
      else None)"

section \<open>The loops on concrete and on arbitrary blocks\<close>

text \<open>
  The equations of the loops are taken out of the simplifier; a loop is unfolded one pass
  at a time.
\<close>

declare fast_loop.simps [simp del]
declare interp_loop.simps [simp del]
declare filter_incr_loop.simps [simp del]
declare filter_fixed_loop.simps [simp del]
declare centered_loop.simps [simp del]
declare mix_loop.simps [simp del]
declare sse_mix_loop.simps [simp del]

lemma buf_read_in: "i < length xs \<Longrightarrow> buf_read xs i = Some (xs ! i)"
  by (simp add: buf_read_def)

lemma funpow_Suc_apply: "(g ^^ Suc k) p = (g ^^ k) (g p)"
  by (simp add: funpow_swap1)

lemma funpow_block: "i < e \<Longrightarrow> (g ^^ (e - i)) p = (g ^^ (e - Suc i)) (g p)"
proof -
  assume "i < e"
  then have "e - i = Suc (e - Suc i)" by simp
  then show ?thesis by (simp add: funpow_swap1)
qed

section \<open>Properties of the rounding\<close>

lemma bitlen_unique:
  assumes "2 ^ k \<le> n" and "n < 2 ^ Suc k"
  shows "bitlen (n :: int) = int k + 1"
proof -
  have "bitlen n \<le> int (Suc k)"
    unfolding bitlen_le_iff_power nat_int using assms(2) by simp
  moreover have "\<not> bitlen n \<le> int k"
    unfolding bitlen_le_iff_power nat_int using assms(1) by simp
  ultimately show ?thesis by simp
qed

lemma binade_ge1:
  assumes "2 ^ k \<le> \<bar>x\<bar>" and "\<bar>x\<bar> < 2 ^ Suc k"
  shows "binade x = int k"
proof -
  have one: "(1 :: real) \<le> 2 ^ k" by simp
  with assms(1) have ge: "1 \<le> \<bar>x\<bar>" by linarith
  have "(2 :: int) ^ k \<le> \<lfloor>\<bar>x\<bar>\<rfloor>"
    using assms(1) by (simp add: le_floor_iff)
  moreover have "\<lfloor>\<bar>x\<bar>\<rfloor> < (2 :: int) ^ Suc k"
    using assms(2) by (simp add: floor_less_iff)
  ultimately have "bitlen \<lfloor>\<bar>x\<bar>\<rfloor> = int k + 1"
    by (rule bitlen_unique)
  with ge show ?thesis
    by (simp add: binade_def)
qed

lemma round_half_even_of_int: "round_half_even (real_of_int n) = n"
  by (simp add: round_half_even_def)

text \<open>An integer of magnitude below \<open>2 ^ p\<close> is a value of the format: rounding keeps it.\<close>

lemma round_nearest_even_of_int:
  assumes "\<bar>n\<bar> < 2 ^ p"
  shows "round_nearest_even p (real_of_int n) = real_of_int n"
proof (cases "n = 0")
  case True
  then show ?thesis by (simp add: round_nearest_even_def)
next
  case False
  then have pos: "0 < \<bar>n\<bar>" by simp
  define k where "k = nat (bitlen \<bar>n\<bar> - 1)"
  from bitlen_bounds [OF pos] have lo: "2 ^ k \<le> \<bar>n\<bar>" and hi: "\<bar>n\<bar> < 2 ^ nat (bitlen \<bar>n\<bar>)"
    by (simp_all add: k_def)
  from pos have "0 < bitlen \<bar>n\<bar>"
    using bitlen_nonneg [of "\<bar>n\<bar>"] bitlen_eq_zero_iff [of "\<bar>n\<bar>"] by linarith
  then have sk: "nat (bitlen \<bar>n\<bar>) = Suc k"
    by (simp add: k_def)
  have kp: "k < p"
  proof (rule ccontr)
    assume "\<not> k < p"
    then have "(2 :: int) ^ p \<le> 2 ^ k" by (simp add: power_increasing)
    with lo assms show False by simp
  qed
  have "2 ^ k \<le> \<bar>real_of_int n\<bar>"
    using lo by (metis of_int_abs of_int_le_iff of_int_numeral of_int_power)
  moreover have "\<bar>real_of_int n\<bar> < 2 ^ Suc k"
    using hi unfolding sk by (metis of_int_abs of_int_less_iff of_int_numeral of_int_power)
  ultimately have b: "binade (real_of_int n) = int k"
    by (rule binade_ge1)
  define j where "j = p - 1 - k"
  from kp have e: "int k - (int p - 1) = - int j"
    by (simp add: j_def)
  have scaled: "real_of_int n / 2 powi (- int j) = real_of_int (n * 2 ^ j)"
    by (simp add: power_int_minus field_simps)
  show ?thesis
    using False
    by (simp add: round_nearest_even_def b e Let_def scaled round_half_even_of_int
          del: of_int_mult of_int_power)
       (simp add: power_int_minus)
qed

lemma round_double_numeral:
  "(numeral k :: int) < 2 ^ 53 \<Longrightarrow> round_double (numeral k) = numeral k"
  using round_nearest_even_of_int [of "numeral k" 53] by (simp add: round_double_def)

lemma round_double_neg_numeral:
  "(numeral k :: int) < 2 ^ 53 \<Longrightarrow> round_double (- numeral k) = - numeral k"
  using round_nearest_even_of_int [of "- numeral k" 53] by (simp add: round_double_def)

lemma round_double_0: "round_double 0 = 0"
  by (simp add: round_double_def round_nearest_even_def)

lemma round_double_1: "round_double 1 = 1"
  using round_nearest_even_of_int [of 1 53] by (simp add: round_double_def)

lemma round_double_neg_1: "round_double (- 1) = - 1"
  using round_nearest_even_of_int [of "- 1" 53] by (simp add: round_double_def)

lemma round_float_numeral:
  "(numeral k :: int) < 2 ^ 24 \<Longrightarrow> round_float (numeral k) = numeral k"
  using round_nearest_even_of_int [of "numeral k" 24] by (simp add: round_float_def)

lemma round_float_neg_numeral:
  "(numeral k :: int) < 2 ^ 24 \<Longrightarrow> round_float (- numeral k) = - numeral k"
  using round_nearest_even_of_int [of "- numeral k" 24] by (simp add: round_float_def)

lemma round_float_0: "round_float 0 = 0"
  by (simp add: round_float_def round_nearest_even_def)

lemma round_float_1: "round_float 1 = 1"
  using round_nearest_even_of_int [of 1 24] by (simp add: round_float_def)

lemma round_float_neg_1: "round_float (- 1) = - 1"
  using round_nearest_even_of_int [of "- 1" 24] by (simp add: round_float_def)

lemmas round_double_int =
  round_double_numeral round_double_neg_numeral round_double_0 round_double_1 round_double_neg_1

lemmas round_float_int =
  round_float_numeral round_float_neg_numeral round_float_0 round_float_1 round_float_neg_1

text \<open>
  \<open>2 ^ 53\<close> is a \<open>double\<close>; \<open>2 ^ 53 + 1\<close> is not: it lies halfway between \<open>2 ^ 53\<close> and
  \<open>2 ^ 53 + 2\<close> and is rounded to \<open>2 ^ 53\<close>, whose significand is even. In the same way
  \<open>2 ^ 24 + 1\<close> is not a \<open>float\<close> and is rounded to \<open>2 ^ 24\<close>.
\<close>

lemma round_double_2p53: "round_double 9007199254740992 = 9007199254740992"
proof -
  have "binade 9007199254740992 = int 53"
    by (rule binade_ge1) simp_all
  then show ?thesis
    by (simp add: round_double_def round_nearest_even_def round_half_even_def)
qed

lemma round_double_tie: "round_double 9007199254740993 = 9007199254740992"
proof -
  have "binade 9007199254740993 = int 53"
    by (rule binade_ge1) simp_all
  then show ?thesis
    by (simp add: round_double_def round_nearest_even_def round_half_even_def)
qed


text \<open>
  Additions that do not round add up: when each of the \<open>n\<close> sums is a value of the format,
  \<open>n\<close> additions of \<open>d\<close> reach \<open>a + n * d\<close>.
\<close>

lemma funpow_add_exact:
  assumes "\<forall>k<n. rnd (a + real k * d + d) = a + real k * d + d"
  shows "((\<lambda>x. rnd (x + d)) ^^ n) a = a + real n * d"
  using assms
proof (induction n)
  case 0
  show ?case by simp
next
  case (Suc n)
  then have "((\<lambda>x. rnd (x + d)) ^^ n) a = a + real n * d"
    by simp
  moreover from Suc.prems have "rnd (a + real n * d + d) = a + real n * d + d"
    by simp
  ultimately show ?case
    by (simp add: algebra_simps)
qed

section \<open>Properties of the sample accessor\<close>

lemma push_bit_or_byte:
  "push_bit 8 (x :: 32 word) OR ucast (l :: 8 word) = push_bit 8 x + ucast l"
proof -
  have "push_bit 8 x + (ucast l :: 32 word) = push_bit 8 x OR ucast l"
    by (rule disjunctive_add) (auto simp: bit_push_bit_iff bit_ucast_iff dest: bit_imp_le_length)
  then show ?thesis by simp
qed

lemma sint_shift_or:
  "sint (push_bit 8 (scast (m :: 16 word) :: 32 word) OR ucast (l :: 8 word))
   = 256 * sint m + uint l"
proof -
  have eq: "push_bit 8 (scast m :: 32 word) OR ucast l = word_of_int (256 * sint m + uint l)"
    unfolding push_bit_or_byte by (simp add: push_bit_eq_mult)
  have lo: "- 32768 \<le> sint m" and hi: "sint m < 32768"
    using sint_ge [of m] sint_lt [of m] by simp_all
  have l0: "0 \<le> uint l" and l1: "uint l < 256"
    using uint_lt2p [of l] by simp_all
  have b1: "- 2147483648 \<le> 256 * sint m + uint l"
    using lo l0 by linarith
  have b2: "256 * sint m + uint l < 2147483648"
    using hi l1 by linarith
  have b3: "signed_take_bit 31 (256 * sint m + uint l) = 256 * sint m + uint l"
    by (rule signed_take_bit_int_eq_self) (use b1 b2 in simp_all)
  have "sint (word_of_int (256 * sint m + uint l) :: 32 word)
        = signed_take_bit 31 (256 * sint m + uint l)"
    by (subst sint_sbintrunc') simp
  then show ?thesis
    unfolding eq b3 .
qed

text \<open>
  Claim C10. For every index inside the arrays, \<open>fluid_rvoice_get_sample\<close> returns, read
  as a signed 32-bit value, exactly 256 times the signed 16-bit sample \<open>dsp_msb[idx]\<close>
  plus the byte \<open>dsp_lsb[idx]\<close> (its value as \<open>uint8_t\<close>, from 0 to 255); when \<open>dsp_lsb\<close>
  is \<open>NULL\<close> it returns exactly 256 times \<open>dsp_msb[idx]\<close>.
\<close>

theorem fluid_rvoice_get_sample_value:
  assumes "idx < length dsp_msb"
    and "\<forall>bytes. dsp_lsb = Some bytes \<longrightarrow> idx < length bytes"
  shows "\<exists>r. fluid_rvoice_get_sample dsp_msb dsp_lsb idx = Some r
           \<and> sint r = 256 * sint (dsp_msb ! idx)
                 + (case dsp_lsb of None \<Rightarrow> 0 | Some bytes \<Rightarrow> uint (bytes ! idx))"
proof (cases dsp_lsb)
  case None
  have "sint (push_bit 8 (scast (dsp_msb ! idx) :: 32 word) OR ucast (0 :: 8 word))
        = 256 * sint (dsp_msb ! idx) + uint (0 :: 8 word)"
    by (rule sint_shift_or)
  with None assms(1) show ?thesis
    by (simp add: fluid_rvoice_get_sample_def)
next
  case (Some bytes)
  with assms(2) have "idx < length bytes" by simp
  with Some assms(1) show ?thesis
    by (simp add: fluid_rvoice_get_sample_def Let_def sint_shift_or)
qed

theorem fluid_rvoice_get_sample_value_witness:
  "(1 :: nat) < length [0x7FFF, 0x8000 :: 16 word]
   \<and> fluid_rvoice_get_sample [0x7FFF, 0x8000] (Some [0x01, 0xFF]) 1 = Some 0xFF8000FF
   \<and> sint (0xFF8000FF :: 32 word) = 256 * sint (0x8000 :: 16 word) + uint (0xFF :: 8 word)
   \<and> sint (0x8000 :: 16 word) = - 32768"
proof -
  have h: "(1 :: nat) < length [0x7FFF, 0x8000 :: 16 word]"
    "\<forall>bytes. Some [0x01, 0xFF :: 8 word] = Some bytes \<longrightarrow> 1 < length bytes"
    by simp_all
  have ev: "fluid_rvoice_get_sample [0x7FFF, 0x8000] (Some [0x01, 0xFF]) 1 = Some 0xFF8000FF"
    by (simp add: fluid_rvoice_get_sample_def)
  from fluid_rvoice_get_sample_value [OF h]
  obtain r where r: "fluid_rvoice_get_sample [0x7FFF, 0x8000] (Some [0x01, 0xFF]) 1 = Some r"
    and v: "sint r = 256 * sint ([0x7FFF, 0x8000 :: 16 word] ! 1)
                     + (case Some [0x01, 0xFF :: 8 word] of
                          None \<Rightarrow> 0 | Some bytes \<Rightarrow> uint (bytes ! 1))"
    by blast
  from r have "r = 0xFF8000FF"
    unfolding ev by (simp only: option.inject)
  with v have "sint (0xFF8000FF :: 32 word)
               = 256 * sint (0x8000 :: 16 word) + uint (0xFF :: 8 word)"
    by simp
  moreover have "sint (0x8000 :: 16 word) = - 32768"
    by simp
  ultimately show ?thesis
    using h(1) ev by (intro conjI)
qed

section \<open>Properties of the pan and of the sends\<close>

lemma mix_loop_result:
  assumes "dsp_end \<le> length buf" and "dsp_end \<le> length dest"
  shows "\<exists>d. mix_loop rnd gain buf i dsp_end dest = Some d \<and> length d = length dest
           \<and> (\<forall>k. k < length dest \<longrightarrow>
                 d ! k = (if i \<le> k \<and> k < dsp_end
                          then rnd (dest ! k + rnd (gain * buf ! k)) else dest ! k))"
  using assms
proof (induction rnd gain buf i dsp_end dest rule: mix_loop.induct)
  case (1 rnd gain buf i e dest)
  show ?case
  proof (cases "i < e")
    case False
    then show ?thesis
      by (simp add: mix_loop.simps)
  next
    case True
    with "1.prems" have rb: "buf_read buf i = Some (buf ! i)"
      and rd: "buf_read dest i = Some (dest ! i)"
      by (simp_all add: buf_read_in)
    let ?dest = "dest[i := rnd (dest ! i + rnd (gain * buf ! i))]"
    from "1.prems" have "e \<le> length ?dest" by simp
    from "1.IH" [OF True rb rd "1.prems"(1) this]
    obtain d where d: "mix_loop rnd gain buf (Suc i) e ?dest = Some d" "length d = length dest"
      and dk: "\<And>k. k < length dest \<Longrightarrow>
             d ! k = (if Suc i \<le> k \<and> k < e
                      then rnd (?dest ! k + rnd (gain * buf ! k)) else ?dest ! k)"
      by auto
    have step: "mix_loop rnd gain buf i e dest = mix_loop rnd gain buf (Suc i) e ?dest"
      using True rb rd by (subst mix_loop.simps) simp
    have "d ! k = (if i \<le> k \<and> k < e then rnd (dest ! k + rnd (gain * buf ! k)) else dest ! k)"
      if "k < length dest" for k
      using dk [OF that] True that by (cases "k = i") auto
    with d show ?thesis
      unfolding step by simp
  qed
qed


lemma sse_mix_loop_done:
  "\<not> i < n \<Longrightarrow> sse_mix_loop rnd gain buf i n dest = Some dest"
  by (simp add: sse_mix_loop.simps)

lemma sse_mix_loop_step:
  "i < n \<Longrightarrow> i + 4 \<le> length buf \<Longrightarrow> i + 4 \<le> length dest \<Longrightarrow>
   sse_mix_loop rnd gain buf i n dest
   = sse_mix_loop rnd gain buf (i + 4) n
       (dest[i := sse_mul_add rnd gain buf dest i,
             i + 1 := sse_mul_add rnd gain buf dest (i + 1),
             i + 2 := sse_mul_add rnd gain buf dest (i + 2),
             i + 3 := sse_mul_add rnd gain buf dest (i + 3)])"
  by (subst sse_mix_loop.simps) simp

text \<open>
  On a buffer of \<open>4 * m\<close> values the SSE loop has, value by value, the effect of the
  standard loop.
\<close>

lemma sse_mix_loop_result:
  assumes "4 dvd i" and "4 dvd n" and "n \<le> length buf" and "n \<le> length dest"
  shows "\<exists>d. sse_mix_loop rnd gain buf i n dest = Some d \<and> length d = length dest
           \<and> (\<forall>k. k < length dest \<longrightarrow>
                 d ! k = (if i \<le> k \<and> k < n
                          then rnd (dest ! k + rnd (gain * buf ! k)) else dest ! k))"
  using assms
proof (induction rnd gain buf i n dest rule: sse_mix_loop.induct)
  case (1 rnd gain buf i n dest)
  show ?case
  proof (cases "i < n")
    case False
    then show ?thesis
      by (simp add: sse_mix_loop_done)
  next
    case True
    from True "1.prems"(1,2) have i4: "i + 4 \<le> n"
      by (auto simp: dvd_def)
    with "1.prems" have b: "i + 4 \<le> length buf \<and> i + 4 \<le> length dest"
      by simp
    define dest2 where "dest2 = dest[i := sse_mul_add rnd gain buf dest i,
                  i + 1 := sse_mul_add rnd gain buf dest (i + 1),
                  i + 2 := sse_mul_add rnd gain buf dest (i + 2),
                  i + 3 := sse_mul_add rnd gain buf dest (i + 3)]"
    have len2: "length dest2 = length dest"
      by (simp add: dest2_def)
    from "1.prems"(1) have d4: "4 dvd i + 4" by simp
    from "1.prems"(4) have nl: "n \<le> length dest2"
      by (simp add: len2)
    from "1.IH" [OF True b, folded dest2_def, OF d4 "1.prems"(2,3) nl]
    obtain d where d: "sse_mix_loop rnd gain buf (i + 4) n dest2 = Some d"
      "length d = length dest"
      and dk: "\<And>k. k < length dest \<Longrightarrow>
             d ! k = (if i + 4 \<le> k \<and> k < n
                      then rnd (dest2 ! k + rnd (gain * buf ! k)) else dest2 ! k)"
      unfolding len2 by auto
    have step: "sse_mix_loop rnd gain buf i n dest = sse_mix_loop rnd gain buf (i + 4) n dest2"
      unfolding dest2_def using True b by (simp add: sse_mix_loop_step)
    have far: "dest2 ! k = dest ! k" if "k < i \<or> i + 4 \<le> k" for k
      using that by (auto simp: dest2_def)
    have near: "dest2 ! k = rnd (dest ! k + rnd (gain * buf ! k))"
      if "i \<le> k" and "k < i + 4" for k
    proof -
      from that have "k = i \<or> k = i + 1 \<or> k = i + 2 \<or> k = i + 3" by arith
      moreover from b that have "k < length dest" by simp
      ultimately show ?thesis
        using b by (auto simp: dest2_def sse_mul_add_def add.commute mult.commute)
    qed
    have "d ! k = (if i \<le> k \<and> k < n then rnd (dest ! k + rnd (gain * buf ! k)) else dest ! k)"
      if kl: "k < length dest" for k
    proof (cases "i + 4 \<le> k")
      case True
      with dk [OF kl] far [of k] show ?thesis by auto
    next
      case notfar: False
      show ?thesis
      proof (cases "i \<le> k")
        case True
        with notfar i4 dk [OF kl] near [of k] show ?thesis by auto
      next
        case False
        with dk [OF kl] far [of k] show ?thesis by auto
      qed
    qed
    with d show ?thesis
      unfolding step by simp
  qed
qed




text \<open>
  Claim C5, as stated: a channel whose gain is exactly zero keeps its destination buffer,
  also when the pan lies in the dead-zone. In the dead-zone the standard version tests
  no gain and \<open>amp_left\<close> serves both channels: with \<open>amp_right = 0\<close>, \<open>amp_left = 1\<close> and
  \<open>pan = 0\<close> the right buffer changes from 7 to 10.
\<close>

theorem dsp_pan_zero_gain_counterexample:
  "amp_right \<lparr>a1 = 0, a2 = 0, b02 = 0, b1 = 0, a1_incr = 0, a2_incr = 0, b02_incr = 0,
       b1_incr = 0, filter_coeff_incr_count = 0, amp_left = 1, amp_right = 0, pan = 0,
       amp_reverb = 0, amp_chorus = 0\<rparr> = 0
   \<and> dsp_pan False 64 round_double
       \<lparr>a1 = 0, a2 = 0, b02 = 0, b1 = 0, a1_incr = 0, a2_incr = 0, b02_incr = 0,
       b1_incr = 0, filter_coeff_incr_count = 0, amp_left = 1, amp_right = 0, pan = 0,
       amp_reverb = 0, amp_chorus = 0\<rparr> [3] 0 1 [0] [7] = Some ([3], [10])
   \<and> dsp_pan True 64 round_float
       \<lparr>a1 = 0, a2 = 0, b02 = 0, b1 = 0, a1_incr = 0, a2_incr = 0, b02_incr = 0,
       b1_incr = 0, filter_coeff_incr_count = 0, amp_left = 1, amp_right = 0, pan = 0,
       amp_reverb = 0, amp_chorus = 0\<rparr> [3] 0 1 [0] [7] = Some ([3], [10])
   \<and> [10] \<noteq> [7 :: real]"
  by (simp add: dsp_pan_def sse_block_def dsp_pan_standard_def centered_loop.simps buf_read_def
      Let_def round_float_int round_double_int)

text \<open>
  Claim C5, amended. When the pan lies outside the dead-zone (\<open>pan \<le> -0.5\<close> or
  \<open>pan \<ge> 0.5\<close>) and the gain of a channel is exactly zero, the loop of that channel is
  skipped and its destination buffer is left as it was. (The SSE version skips the loop
  of a channel with a zero gain whatever the pan.)
\<close>

theorem dsp_pan_zero_gain:
  assumes "dsp_pan ENABLE_SSE FLUID_BUFSIZE rnd voice buf dsp_start dsp_end
             dsp_left_buf dsp_right_buf = Some (l, r)"
  shows "(\<not> (pan voice < 0.5 \<and> pan voice > - 0.5) \<and> amp_left voice = 0 \<longrightarrow> l = dsp_left_buf)
       \<and> (\<not> (pan voice < 0.5 \<and> pan voice > - 0.5) \<and> amp_right voice = 0 \<longrightarrow> r = dsp_right_buf)
       \<and> (sse_block ENABLE_SSE FLUID_BUFSIZE dsp_start dsp_end \<and> amp_left voice = 0
            \<longrightarrow> l = dsp_left_buf)
       \<and> (sse_block ENABLE_SSE FLUID_BUFSIZE dsp_start dsp_end \<and> amp_right voice = 0
            \<longrightarrow> r = dsp_right_buf)"
  using assms
  by (auto simp: dsp_pan_def dsp_pan_sse_def dsp_pan_standard_def split: if_splits bind_splits)

theorem dsp_pan_zero_gain_witness:
  "dsp_pan False 64 round_double
       \<lparr>a1 = 0, a2 = 0, b02 = 0, b1 = 0, a1_incr = 0, a2_incr = 0, b02_incr = 0,
       b1_incr = 0, filter_coeff_incr_count = 0, amp_left = 1, amp_right = 0, pan = - 500,
       amp_reverb = 0, amp_chorus = 0\<rparr> [3] 0 1 [0] [7] = Some ([3], [7])
   \<and> \<not> (- 500 < (0.5 :: real) \<and> - 500 > (- 0.5 :: real))"
proof -
  let ?v = "\<lparr>a1 = 0, a2 = 0, b02 = 0, b1 = 0, a1_incr = 0, a2_incr = 0, b02_incr = 0,
       b1_incr = 0, filter_coeff_incr_count = 0, amp_left = 1, amp_right = 0, pan = - 500 :: real,
       amp_reverb = 0, amp_chorus = 0\<rparr>"
  have h: "dsp_pan False 64 round_double ?v [3] 0 1 [0] [7] = Some ([3], [7])"
    by (simp add: dsp_pan_def sse_block_def dsp_pan_standard_def mix_loop.simps buf_read_def
        round_double_int)
  show ?thesis
    using dsp_pan_zero_gain [OF h] h by simp
qed

lemma dsp_send_result:
  assumes "dsp_end \<le> length buf" and "dsp_end \<le> length d" and "gain \<noteq> 0"
  shows "\<exists>d'. dsp_send ENABLE_SSE FLUID_BUFSIZE rnd gain buf dsp_start dsp_end (Buf d)
                = Some (Buf d')
           \<and> length d' = length d
           \<and> (\<forall>i. dsp_start \<le> i \<and> i < dsp_end \<longrightarrow> d' ! i = rnd (d ! i + rnd (gain * buf ! i)))
           \<and> (\<forall>i. i < length d \<and> (i < dsp_start \<or> dsp_end \<le> i) \<longrightarrow> d' ! i = d ! i)"
proof -
  have "\<exists>d'. (if sse_block ENABLE_SSE FLUID_BUFSIZE dsp_start dsp_end
              then sse_mix_loop rnd gain buf 0 FLUID_BUFSIZE d
              else mix_loop rnd gain buf dsp_start dsp_end d) = Some d'
          \<and> length d' = length d
          \<and> (\<forall>k. k < length d \<longrightarrow>
                d' ! k = (if dsp_start \<le> k \<and> k < dsp_end
                          then rnd (d ! k + rnd (gain * buf ! k)) else d ! k))"
  proof (cases "sse_block ENABLE_SSE FLUID_BUFSIZE dsp_start dsp_end")
    case True
    then have s: "dsp_start = 0" and e: "dsp_end = FLUID_BUFSIZE" and m: "4 dvd FLUID_BUFSIZE"
      by (auto simp: sse_block_def)
    have z: "4 dvd (0 :: nat)" by simp
    from sse_mix_loop_result [OF z m assms(1,2) [unfolded e], of rnd gain] True
    show ?thesis
      unfolding s e by simp
  next
    case False
    with mix_loop_result [OF assms(1,2), of rnd gain dsp_start] show ?thesis
      by simp
  qed
  then obtain d' where
    res: "(if sse_block ENABLE_SSE FLUID_BUFSIZE dsp_start dsp_end
           then sse_mix_loop rnd gain buf 0 FLUID_BUFSIZE d
           else mix_loop rnd gain buf dsp_start dsp_end d) = Some d'"
    and len: "length d' = length d"
    and dk: "\<And>k. k < length d \<Longrightarrow>
           d' ! k = (if dsp_start \<le> k \<and> k < dsp_end
                     then rnd (d ! k + rnd (gain * buf ! k)) else d ! k)"
    by blast
  have "d' ! i = rnd (d ! i + rnd (gain * buf ! i))" if "dsp_start \<le> i \<and> i < dsp_end" for i
    using dk [of i] that assms(2) by simp
  moreover have "d' ! i = d ! i" if "i < length d \<and> (i < dsp_start \<or> dsp_end \<le> i)" for i
    using dk [of i] that by auto
  moreover have "dsp_send ENABLE_SSE FLUID_BUFSIZE rnd gain buf dsp_start dsp_end (Buf d)
                 = Some (Buf d')"
    using res assms(3) by (simp add: dsp_send_def split: if_splits)
  ultimately show ?thesis
    using len by blast
qed

text \<open>
  Claim C6. When the reverb (the chorus) buffer is not \<open>NULL\<close> and the gain of the send
  is not zero, \<open>gain * dsp_buf[i]\<close> is added to the buffer at every index \<open>i\<close> of the
  block, and nothing else of it changes; when the buffer is \<open>NULL\<close>, nothing is written.
  (With a gain of zero the buffer is not written either.) The two sends do not depend on
  each other. This holds in the standard and in the SSE version, and for every rounding
  of the product and of the sum.
\<close>

theorem dsp_sends_accumulate:
  assumes "dsp_end \<le> length buf"
  shows "(amp_reverb voice \<noteq> 0 \<and> dsp_end \<le> length rb \<longrightarrow>
            (\<exists>rb'. dsp_reverb_send ENABLE_SSE FLUID_BUFSIZE rnd voice buf dsp_start dsp_end (Buf rb)
                    = Some (Buf rb')
               \<and> length rb' = length rb
               \<and> (\<forall>i. dsp_start \<le> i \<and> i < dsp_end \<longrightarrow>
                     rb' ! i = rnd (rb ! i + rnd (amp_reverb voice * buf ! i)))
               \<and> (\<forall>i. i < length rb \<and> (i < dsp_start \<or> dsp_end \<le> i) \<longrightarrow> rb' ! i = rb ! i)))
       \<and> (amp_chorus voice \<noteq> 0 \<and> dsp_end \<le> length cb \<longrightarrow>
            (\<exists>cb'. dsp_chorus_send ENABLE_SSE FLUID_BUFSIZE rnd voice buf dsp_start dsp_end (Buf cb)
                    = Some (Buf cb')
               \<and> length cb' = length cb
               \<and> (\<forall>i. dsp_start \<le> i \<and> i < dsp_end \<longrightarrow>
                     cb' ! i = rnd (cb ! i + rnd (amp_chorus voice * buf ! i)))
               \<and> (\<forall>i. i < length cb \<and> (i < dsp_start \<or> dsp_end \<le> i) \<longrightarrow> cb' ! i = cb ! i)))
       \<and> (amp_reverb voice = 0 \<longrightarrow>
            dsp_reverb_send ENABLE_SSE FLUID_BUFSIZE rnd voice buf dsp_start dsp_end (Buf rb)
            = Some (Buf rb))
       \<and> (amp_chorus voice = 0 \<longrightarrow>
            dsp_chorus_send ENABLE_SSE FLUID_BUFSIZE rnd voice buf dsp_start dsp_end (Buf cb)
            = Some (Buf cb))
       \<and> dsp_reverb_send ENABLE_SSE FLUID_BUFSIZE rnd voice buf dsp_start dsp_end NULL = Some NULL
       \<and> dsp_chorus_send ENABLE_SSE FLUID_BUFSIZE rnd voice buf dsp_start dsp_end NULL = Some NULL"
proof (intro conjI impI)
  assume "amp_reverb voice \<noteq> 0 \<and> dsp_end \<le> length rb"
  then have "amp_reverb voice \<noteq> 0" and "dsp_end \<le> length rb" by simp_all
  from dsp_send_result [OF assms this(2,1), of ENABLE_SSE FLUID_BUFSIZE rnd dsp_start]
  show "\<exists>rb'. dsp_reverb_send ENABLE_SSE FLUID_BUFSIZE rnd voice buf dsp_start dsp_end (Buf rb)
               = Some (Buf rb')
          \<and> length rb' = length rb
          \<and> (\<forall>i. dsp_start \<le> i \<and> i < dsp_end \<longrightarrow>
                rb' ! i = rnd (rb ! i + rnd (amp_reverb voice * buf ! i)))
          \<and> (\<forall>i. i < length rb \<and> (i < dsp_start \<or> dsp_end \<le> i) \<longrightarrow> rb' ! i = rb ! i)"
    unfolding dsp_reverb_send_def .
next
  assume "amp_chorus voice \<noteq> 0 \<and> dsp_end \<le> length cb"
  then have "amp_chorus voice \<noteq> 0" and "dsp_end \<le> length cb" by simp_all
  from dsp_send_result [OF assms this(2,1), of ENABLE_SSE FLUID_BUFSIZE rnd dsp_start]
  show "\<exists>cb'. dsp_chorus_send ENABLE_SSE FLUID_BUFSIZE rnd voice buf dsp_start dsp_end (Buf cb)
               = Some (Buf cb')
          \<and> length cb' = length cb
          \<and> (\<forall>i. dsp_start \<le> i \<and> i < dsp_end \<longrightarrow>
                cb' ! i = rnd (cb ! i + rnd (amp_chorus voice * buf ! i)))
          \<and> (\<forall>i. i < length cb \<and> (i < dsp_start \<or> dsp_end \<le> i) \<longrightarrow> cb' ! i = cb ! i)"
    unfolding dsp_chorus_send_def .
qed (simp_all add: dsp_reverb_send_def dsp_chorus_send_def dsp_send_def)

theorem dsp_sends_accumulate_witness:
  "amp_reverb \<lparr>a1 = 0, a2 = 0, b02 = 0, b1 = 0, a1_incr = 0, a2_incr = 0, b02_incr = 0,
       b1_incr = 0, filter_coeff_incr_count = 0, amp_left = 0, amp_right = 0, pan = 0,
       amp_reverb = 2, amp_chorus = 0\<rparr> \<noteq> 0
   \<and> dsp_reverb_send True 4 round_float
       \<lparr>a1 = 0, a2 = 0, b02 = 0, b1 = 0, a1_incr = 0, a2_incr = 0, b02_incr = 0,
       b1_incr = 0, filter_coeff_incr_count = 0, amp_left = 0, amp_right = 0, pan = 0,
       amp_reverb = 2, amp_chorus = 0\<rparr> [1, 2, 3] 1 3 (Buf [10, 10, 10]) = Some (Buf [10, 14, 16])
   \<and> dsp_chorus_send True 4 round_float
       \<lparr>a1 = 0, a2 = 0, b02 = 0, b1 = 0, a1_incr = 0, a2_incr = 0, b02_incr = 0,
       b1_incr = 0, filter_coeff_incr_count = 0, amp_left = 0, amp_right = 0, pan = 0,
       amp_reverb = 2, amp_chorus = 0\<rparr> [1, 2, 3] 1 3 (Buf [5, 5, 5]) = Some (Buf [5, 5, 5])
   \<and> [10, 14, 16] ! 2 = round_float (10 + round_float (2 * 3))"
proof -
  let ?v = "\<lparr>a1 = 0, a2 = 0, b02 = 0, b1 = 0, a1_incr = 0, a2_incr = 0, b02_incr = 0,
       b1_incr = 0, filter_coeff_incr_count = 0, amp_left = 0, amp_right = 0, pan = 0 :: real,
       amp_reverb = 2, amp_chorus = 0\<rparr>"
  have h: "3 \<le> length [1, 2, 3 :: real]"
    by simp
  have g: "amp_reverb ?v \<noteq> 0" "amp_chorus ?v = 0" "amp_reverb ?v \<noteq> 0 \<and> 3 \<le> length [10, 10, 10 :: real]"
    by simp_all
  have ev: "dsp_reverb_send True 4 round_float ?v [1, 2, 3] 1 3 (Buf [10, 10, 10])
            = Some (Buf [10, 14, 16])"
    by (simp add: dsp_reverb_send_def dsp_send_def sse_block_def mix_loop.simps buf_read_def
        round_float_int)
  note acc = dsp_sends_accumulate [OF h, of ?v "[10, 10, 10]" True 4 round_float 1 "[5, 5, 5]"]
  from acc g(2)
  have ch: "dsp_chorus_send True 4 round_float ?v [1, 2, 3] 1 3 (Buf [5, 5, 5]) = Some (Buf [5, 5, 5])"
    by blast
  from acc g(3) obtain rb' where
    r: "dsp_reverb_send True 4 round_float ?v [1, 2, 3] 1 3 (Buf [10, 10, 10]) = Some (Buf rb')"
    and k: "\<And>i. 1 \<le> i \<and> i < 3 \<Longrightarrow>
           rb' ! i = round_float ([10, 10, 10] ! i + round_float (amp_reverb ?v * [1, 2, 3] ! i))"
    by blast
  from r have "rb' = [10, 14, 16]"
    unfolding ev by (simp only: option.inject send_buf.inject)
  with k [of 2] have "[10, 14, 16] ! 2 = round_float (10 + round_float (2 * 3))"
    by simp
  with g(1) ev ch show ?thesis
    by (intro conjI)
qed

text \<open>
  The SSE version of a send on a whole buffer of four samples, and the standard version
  on the same block: the values are the same.
\<close>

lemma dsp_send_sse_example:
  "dsp_send True 4 round_float 2 [1, 2, 3, 4] 0 4 (Buf [10, 10, 10, 10])
   = Some (Buf [12, 14, 16, 18])"
  "dsp_send False 4 round_float 2 [1, 2, 3, 4] 0 4 (Buf [10, 10, 10, 10])
   = Some (Buf [12, 14, 16, 18])"
  by (simp_all add: dsp_send_def sse_block_def sse_mix_loop_step sse_mix_loop_done
      sse_mul_add_def mix_loop.simps buf_read_def round_float_int)

section \<open>Properties of the denormal flush\<close>

lemma c_double_to_int_small: "\<bar>x\<bar> < 1 \<Longrightarrow> c_double_to_int x = Some 0"
proof -
  assume a: "\<bar>x\<bar> < 1"
  show ?thesis
  proof (cases "0 \<le> x")
    case True
    with a have "\<lfloor>x\<rfloor> = 0" by (simp add: floor_eq_iff)
    with True show ?thesis by (simp add: c_double_to_int_def)
  next
    case False
    with a have "\<lceil>x\<rceil> = 0" by (simp add: ceiling_eq_iff)
    with False show ?thesis by (simp add: c_double_to_int_def)
  qed
qed

lemma zap_almost_zero_double_below_one:
  "\<bar>x\<bar> < 1 \<Longrightarrow> zap_almost_zero_double x = Some 0"
  by (simp add: zap_almost_zero_double_def c_double_to_int_small c_abs_def)

lemma int_not_below_threshold: "1 \<le> m \<Longrightarrow> \<not> real_of_int m < 1 / 10 ^ 20"
proof -
  assume "1 \<le> m"
  then have "1 \<le> real_of_int m" by simp
  moreover have "(1 :: real) / 10 ^ 20 < 1" by simp
  ultimately show ?thesis by linarith
qed

lemma zap_almost_zero_double_from_one:
  assumes "1 \<le> \<bar>x\<bar>" and "\<bar>x\<bar> < 2147483648"
  shows "zap_almost_zero_double x = Some x"
proof (cases "0 \<le> x")
  case True
  define n where "n = \<lfloor>x\<rfloor>"
  from True assms have n: "1 \<le> n" "n \<le> 2147483647"
    by (simp_all add: n_def le_floor_iff floor_le_iff)
  have "c_double_to_int x = Some n"
    using True n by (simp add: c_double_to_int_def n_def [symmetric])
  moreover have "c_abs n = Some n"
    using n by (simp add: c_abs_def)
  ultimately show ?thesis
    using int_not_below_threshold [OF n(1)] by (simp add: zap_almost_zero_double_def)
next
  case False
  define n where "n = \<lceil>x\<rceil>"
  from False assms have n: "n \<le> - 1" "- 2147483648 < n"
    by (simp_all add: n_def ceiling_le_iff less_ceiling_iff)
  have "c_double_to_int x = Some n"
    using False n by (simp add: c_double_to_int_def n_def [symmetric])
  moreover have "c_abs n = Some (- n)"
    using n by (simp add: c_abs_def)
  moreover from n(1) have "\<not> real_of_int (- n) < 1 / 10 ^ 20"
    by (intro int_not_below_threshold) simp
  ultimately show ?thesis
    by (simp add: zap_almost_zero_double_def)
qed

lemma zap_almost_zero_double_0: "zap_almost_zero_double 0 = Some 0"
  by (simp add: zap_almost_zero_double_below_one)

lemma zap_almost_zero_double_1: "zap_almost_zero_double 1 = Some 1"
  by (simp add: zap_almost_zero_double_from_one)

text \<open>
  Claim C2. The flush is to map \<open>dsp_hist1\<close> to zero when its magnitude is below the
  threshold (\<open>1e-20\<close> in the \<open>double\<close> build) and to leave it unchanged above. In the
  \<open>double\<close> build the macro calls \<open>abs\<close>, which works on \<open>int\<close>: the value 0.5, far above
  \<open>1e-20\<close>, is flushed to zero, as is every value of magnitude below 1; the filter stage
  of the \<open>double\<close> build starts its block from \<open>dsp_hist1 = 0\<close>.
\<close>

theorem zap_almost_zero_double_half:
  "zap_almost_zero_double (1 / 2) = Some 0
   \<and> \<not> \<bar>1 / 2 :: real\<bar> < 1 / 10 ^ 20
   \<and> dsp_filter round_double zap_almost_zero_double True
       \<lparr>a1 = 0, a2 = 0, b02 = 1, b1 = 0, a1_incr = 0, a2_incr = 0, b02_incr = 0, b1_incr = 0,
        filter_coeff_incr_count = 0, amp_left = 0, amp_right = 0, pan = 0, amp_reverb = 0,
        amp_chorus = 0\<rparr> 0 0
       \<lparr>dsp_a1 = 0, dsp_a2 = 0, dsp_b02 = 1, dsp_b1 = 0, dsp_hist1 = 1 / 2, dsp_hist2 = 0,
        dsp_filter_coeff_incr_count = 0\<rparr> []
     = Some (\<lparr>a1 = 0, a2 = 0, b02 = 1, b1 = 0, a1_incr = 0, a2_incr = 0, b02_incr = 0,
              b1_incr = 0, filter_coeff_incr_count = 0, amp_left = 0, amp_right = 0, pan = 0,
              amp_reverb = 0, amp_chorus = 0\<rparr>,
             \<lparr>dsp_a1 = 0, dsp_a2 = 0, dsp_b02 = 1, dsp_b1 = 0, dsp_hist1 = 0, dsp_hist2 = 0,
              dsp_filter_coeff_incr_count = 0\<rparr>, [])"
  by (simp add: zap_almost_zero_double_below_one dsp_filter_def filter_fixed_loop.simps)

lemma exponent_mask_bits: "(0x7f800000 :: 32 word) = push_bit 23 (mask 8)"
  by (simp add: mask_eq_exp_minus_1)

lemma byte_mask_bits: "(0xFF :: 32 word) = mask 8"
  by (simp add: mask_eq_exp_minus_1)

lemma fraction_mask_bits: "(0x7FFFFF :: 32 word) = mask 23"
  by (simp add: mask_eq_exp_minus_1)

lemma exp_field: "(w :: 32 word) AND 0x7f800000 = push_bit 23 (drop_bit 23 w AND 0xFF)"
  unfolding exponent_mask_bits byte_mask_bits
  by (rule bit_eqI) (auto simp: bit_and_iff bit_push_bit_iff bit_drop_bit_eq bit_mask_iff)

lemma exp_bound: "float_exponent w < 256"
proof -
  have "unat (take_bit 8 (drop_bit 23 w)) < 2 ^ 8"
    unfolding unsigned_take_bit_eq by (rule take_bit_nat_less_exp)
  then show ?thesis
    by (simp add: float_exponent_def byte_mask_bits take_bit_eq_mask)
qed

lemma frac_bound: "float_fraction w < 2 ^ 23"
proof -
  have "unat (take_bit 23 w) < 2 ^ 23"
    unfolding unsigned_take_bit_eq by (rule take_bit_nat_less_exp)
  then show ?thesis
    by (simp add: float_fraction_def fraction_mask_bits take_bit_eq_mask)
qed

lemma unat_exp_field: "unat ((w :: 32 word) AND 0x7f800000) = 2 ^ 23 * float_exponent w"
proof -
  define x where "x = drop_bit 23 w AND 0xFF"
  have xb: "unat x < 256"
    using exp_bound [of w] by (simp add: float_exponent_def x_def)
  have "unat (push_bit 23 x) = take_bit 32 (push_bit 23 (unat x))"
    by (simp add: unsigned_push_bit_eq)
  also have "push_bit 23 (unat x) = 2 ^ 23 * unat x"
    by (simp add: push_bit_eq_mult)
  also have "take_bit 32 (2 ^ 23 * unat x) = 2 ^ 23 * unat x"
    by (rule take_bit_nat_eq_self) (use xb in simp)
  finally show ?thesis
    unfolding exp_field x_def [symmetric] by (simp add: float_exponent_def x_def)
qed

lemma exponent_test: "((w :: 32 word) AND 0x7f800000) < 0x08000000 \<longleftrightarrow> float_exponent w < 16"
  unfolding word_less_nat_alt unat_exp_field by simp

lemma magnitude_small: "float_exponent w < 16 \<Longrightarrow> float_magnitude w < 2 ^ 38"
proof (cases "float_exponent w = 0")
  case True
  have "(2 :: nat) ^ 23 < 2 ^ 38" by simp
  with frac_bound [of w] True show ?thesis
    by (simp add: float_magnitude_def)
next
  case False
  assume e: "float_exponent w < 16"
  then have "float_exponent w - 1 \<le> 14" by simp
  then have "(2 :: nat) ^ (float_exponent w - 1) \<le> 2 ^ 14"
    by (rule power_increasing) simp
  moreover have "2 ^ 23 + float_fraction w < 2 ^ 24"
    using frac_bound [of w] by simp
  ultimately have "(2 ^ 23 + float_fraction w) * 2 ^ (float_exponent w - 1) < 2 ^ 24 * 2 ^ 14"
    by (intro mult_less_le_imp_less) simp_all
  with False show ?thesis
    by (simp add: float_magnitude_def)
qed

lemma magnitude_large: "\<not> float_exponent w < 16 \<Longrightarrow> 2 ^ 38 \<le> float_magnitude w"
proof -
  assume "\<not> float_exponent w < 16"
  then have e: "15 \<le> float_exponent w - 1" and ne: "float_exponent w \<noteq> 0" by simp_all
  have "(2 :: nat) ^ 23 \<le> 2 ^ 23 + float_fraction w" by simp
  moreover from e have "(2 :: nat) ^ 15 \<le> 2 ^ (float_exponent w - 1)"
    by (rule power_increasing) simp
  ultimately have "(2 :: nat) ^ 23 * 2 ^ 15 \<le> (2 ^ 23 + float_fraction w) * 2 ^ (float_exponent w - 1)"
    by (rule mult_le_mono)
  with ne show ?thesis
    by (simp add: float_magnitude_def)
qed

text \<open>
  The \<open>float\<close> build flushes exactly the values whose magnitude is below
  \<open>2 ^ 38 * 2 ^ - 149 = 2 ^ - 111\<close> and leaves every other bit pattern as it is.
\<close>

lemma zap_almost_zero_float_threshold:
  "zap_almost_zero_float w = (if float_magnitude w < 2 ^ 38 then 0 else w)"
proof (cases "float_exponent w < 16")
  case True
  with magnitude_small [OF True] show ?thesis
    by (simp only: zap_almost_zero_float_def exponent_test if_True)
next
  case False
  from magnitude_large [OF False] have "\<not> float_magnitude w < 2 ^ 38" by simp
  with False show ?thesis
    by (simp only: zap_almost_zero_float_def exponent_test if_False)
qed

text \<open>
  The \<open>float\<close> build on the bit patterns of 0.5, of the smallest denormal, of a negative
  value just below the threshold \<open>2 ^ - 111\<close>, and of the threshold itself.
\<close>

lemma zap_almost_zero_float_examples:
  "zap_almost_zero_float 0x3f000000 = 0x3f000000"
  "zap_almost_zero_float 0x00000001 = 0"
  "zap_almost_zero_float 0x87ffffff = 0"
  "zap_almost_zero_float 0x08000000 = 0x08000000"
  by (simp_all add: zap_almost_zero_float_def)
section \<open>Properties of the filter\<close>

lemma min_count_step:
  "0 < c \<Longrightarrow> i < e \<Longrightarrow> min (nat c) (e - i) = Suc (min (nat (c - 1)) (e - Suc i))"
  by (auto simp: min_def)

lemma min_count_zero: "\<not> 0 < c \<Longrightarrow> min (nat c) n = 0"
  by simp

lemma filter_incr_loop_done:
  "\<not> i < e \<Longrightarrow> filter_incr_loop rnd i1 i2 i3 i4 i e f buf = Some (f, buf)"
  by (simp add: filter_incr_loop.simps)

lemma filter_incr_loop_step:
  "i < e \<Longrightarrow> i < length buf \<Longrightarrow>
   filter_incr_loop rnd i1 i2 i3 i4 i e f buf
   = filter_incr_loop rnd i1 i2 i3 i4 (Suc i) e
       (if dsp_filter_coeff_incr_count f > 0
        then f\<lparr>dsp_hist2 := dsp_hist1 f,
               dsp_hist1 := rnd (rnd (buf ! i - rnd (dsp_a1 f * dsp_hist1 f))
                                 - rnd (dsp_a2 f * dsp_hist2 f)),
               dsp_filter_coeff_incr_count := dsp_filter_coeff_incr_count f - 1,
               dsp_a1 := rnd (dsp_a1 f + i1), dsp_a2 := rnd (dsp_a2 f + i2),
               dsp_b02 := rnd (dsp_b02 f + i3), dsp_b1 := rnd (dsp_b1 f + i4)\<rparr>
        else f\<lparr>dsp_hist2 := dsp_hist1 f,
               dsp_hist1 := rnd (rnd (buf ! i - rnd (dsp_a1 f * dsp_hist1 f))
                                 - rnd (dsp_a2 f * dsp_hist2 f)),
               dsp_filter_coeff_incr_count := dsp_filter_coeff_incr_count f - 1\<rparr>)
       (buf[i := rnd (rnd (dsp_b02 f
                           * rnd (rnd (rnd (buf ! i - rnd (dsp_a1 f * dsp_hist1 f))
                                       - rnd (dsp_a2 f * dsp_hist2 f))
                                  + dsp_hist2 f))
                      + rnd (dsp_b1 f * dsp_hist1 f))])"
  by (subst filter_incr_loop.simps) (simp add: buf_read_def Let_def)

lemma filter_fixed_loop_done:
  "\<not> i < e \<Longrightarrow> filter_fixed_loop rnd i e f buf = Some (f, buf)"
  by (simp add: filter_fixed_loop.simps)

lemma filter_fixed_loop_step:
  "i < e \<Longrightarrow> i < length buf \<Longrightarrow>
   filter_fixed_loop rnd i e f buf
   = filter_fixed_loop rnd (Suc i) e
       (f\<lparr>dsp_hist2 := dsp_hist1 f,
          dsp_hist1 := rnd (rnd (buf ! i - rnd (dsp_a1 f * dsp_hist1 f))
                            - rnd (dsp_a2 f * dsp_hist2 f))\<rparr>)
       (buf[i := rnd (rnd (dsp_b02 f
                           * rnd (rnd (rnd (buf ! i - rnd (dsp_a1 f * dsp_hist1 f))
                                       - rnd (dsp_a2 f * dsp_hist2 f))
                                  + dsp_hist2 f))
                      + rnd (dsp_b1 f * dsp_hist1 f))])"
  by (subst filter_fixed_loop.simps) (simp add: buf_read_def Let_def)

text \<open>
  The changing loop on a block inside the buffer: the count goes down by the length of the
  block, and each coefficient receives \<open>min c B\<close> rounded additions of its increment.
\<close>

lemma filter_incr_loop_coeffs:
  assumes "dsp_end \<le> length buf"
  shows "\<exists>f' buf'. filter_incr_loop rnd i1 i2 i3 i4 i dsp_end f buf = Some (f', buf')
           \<and> length buf' = length buf
           \<and> dsp_filter_coeff_incr_count f' = dsp_filter_coeff_incr_count f - int (dsp_end - i)
           \<and> dsp_a1 f' = ((\<lambda>a. rnd (a + i1))
                            ^^ min (nat (dsp_filter_coeff_incr_count f)) (dsp_end - i)) (dsp_a1 f)
           \<and> dsp_a2 f' = ((\<lambda>a. rnd (a + i2))
                            ^^ min (nat (dsp_filter_coeff_incr_count f)) (dsp_end - i)) (dsp_a2 f)
           \<and> dsp_b02 f' = ((\<lambda>a. rnd (a + i3))
                            ^^ min (nat (dsp_filter_coeff_incr_count f)) (dsp_end - i)) (dsp_b02 f)
           \<and> dsp_b1 f' = ((\<lambda>a. rnd (a + i4))
                            ^^ min (nat (dsp_filter_coeff_incr_count f)) (dsp_end - i)) (dsp_b1 f)"
  using assms
proof (induction rnd i1 i2 i3 i4 i dsp_end f buf rule: filter_incr_loop.induct)
  case (1 rnd i1 i2 i3 i4 i e f buf)
  show ?case
  proof (cases "i < e")
    case False
    then show ?thesis
      by (simp add: filter_incr_loop.simps)
  next
    case True
    with "1.prems" have rb: "buf_read buf i = Some (buf ! i)"
      by (simp add: buf_read_in)
    define cn where "cn = rnd (rnd (buf ! i - rnd (dsp_a1 f * dsp_hist1 f))
                               - rnd (dsp_a2 f * dsp_hist2 f))"
    define out where "out = rnd (rnd (dsp_b02 f * rnd (cn + dsp_hist2 f))
                                 + rnd (dsp_b1 f * dsp_hist1 f))"
    define f1 where "f1 = f\<lparr>dsp_hist2 := dsp_hist1 f, dsp_hist1 := cn,
      dsp_filter_coeff_incr_count := dsp_filter_coeff_incr_count f - 1\<rparr>"
    define f2 where "f2 = (if dsp_filter_coeff_incr_count f > 0
      then f1\<lparr>dsp_a1 := rnd (dsp_a1 f + i1), dsp_a2 := rnd (dsp_a2 f + i2),
              dsp_b02 := rnd (dsp_b02 f + i3), dsp_b1 := rnd (dsp_b1 f + i4)\<rparr> else f1)"
    define n2 where "n2 = min (nat (dsp_filter_coeff_incr_count f2)) (e - Suc i)"
    from "1.prems" have len: "e \<le> length (buf[i := out])" by simp
    from "1.IH" [OF True rb cn_def out_def f1_def f2_def len]
    obtain f' buf' where
      res: "filter_incr_loop rnd i1 i2 i3 i4 (Suc i) e f2 (buf[i := out]) = Some (f', buf')"
      "length buf' = length buf"
      and cnt: "dsp_filter_coeff_incr_count f' = dsp_filter_coeff_incr_count f2 - int (e - Suc i)"
      and c1: "dsp_a1 f' = ((\<lambda>a. rnd (a + i1)) ^^ n2) (dsp_a1 f2)"
      and c2: "dsp_a2 f' = ((\<lambda>a. rnd (a + i2)) ^^ n2) (dsp_a2 f2)"
      and c3: "dsp_b02 f' = ((\<lambda>a. rnd (a + i3)) ^^ n2) (dsp_b02 f2)"
      and c4: "dsp_b1 f' = ((\<lambda>a. rnd (a + i4)) ^^ n2) (dsp_b1 f2)"
      unfolding n2_def by auto
    have step: "filter_incr_loop rnd i1 i2 i3 i4 i e f buf
                = filter_incr_loop rnd i1 i2 i3 i4 (Suc i) e f2 (buf[i := out])"
      using True rb
      by (subst filter_incr_loop.simps) (simp add: Let_def cn_def out_def f1_def f2_def)
    have cnt2: "dsp_filter_coeff_incr_count f2 = dsp_filter_coeff_incr_count f - 1"
      by (simp add: f2_def f1_def)
    have cnt': "dsp_filter_coeff_incr_count f' = dsp_filter_coeff_incr_count f - int (e - i)"
      using cnt cnt2 True by simp
    show ?thesis
    proof (cases "0 < dsp_filter_coeff_incr_count f")
      case pos: True
      have m: "min (nat (dsp_filter_coeff_incr_count f)) (e - i) = Suc n2"
        unfolding n2_def cnt2 using pos True by (rule min_count_step)
      have v: "dsp_a1 f2 = rnd (dsp_a1 f + i1)" "dsp_a2 f2 = rnd (dsp_a2 f + i2)"
        "dsp_b02 f2 = rnd (dsp_b02 f + i3)" "dsp_b1 f2 = rnd (dsp_b1 f + i4)"
        using pos by (simp_all add: f2_def f1_def)
      show ?thesis
        unfolding step m funpow_Suc_apply
        using res cnt' c1 c2 c3 c4 unfolding v
        by simp
    next
      case neg: False
      then have neg2: "\<not> 0 < dsp_filter_coeff_incr_count f2"
        using cnt2 by simp
      have z: "n2 = 0"
        unfolding n2_def by (rule min_count_zero [OF neg2])
      have v: "dsp_a1 f2 = dsp_a1 f" "dsp_a2 f2 = dsp_a2 f"
        "dsp_b02 f2 = dsp_b02 f" "dsp_b1 f2 = dsp_b1 f"
        using neg by (simp_all add: f2_def f1_def)
      show ?thesis
        unfolding step min_count_zero [OF neg]
        using res cnt' c1 c2 c3 c4 unfolding z v
        by simp
    qed
  qed
qed

lemma dsp_filter_incr:
  assumes "zap (dsp_hist1 f) = Some h" and "0 < dsp_filter_coeff_incr_count f"
    and "filter_incr_loop rnd (a1_incr voice) (a2_incr voice) (b02_incr voice) (b1_incr voice)
           dsp_start dsp_end (f\<lparr>dsp_hist1 := h\<rparr>) buf = Some (f', buf')"
  shows "dsp_filter rnd zap True voice dsp_start dsp_end f buf
         = Some (voice\<lparr>a1 := dsp_a1 f', a2 := dsp_a2 f', b02 := dsp_b02 f', b1 := dsp_b1 f',
                        filter_coeff_incr_count := dsp_filter_coeff_incr_count f'\<rparr>, f', buf')"
  using assms by (simp add: dsp_filter_def)

lemma dsp_filter_fixed:
  assumes "zap (dsp_hist1 f) = Some h" and "\<not> 0 < dsp_filter_coeff_incr_count f"
    and "filter_fixed_loop rnd dsp_start dsp_end (f\<lparr>dsp_hist1 := h\<rparr>) buf = Some (f', buf')"
  shows "dsp_filter rnd zap True voice dsp_start dsp_end f buf = Some (voice, f', buf')"
  using assms by (simp add: dsp_filter_def)

text \<open>
  Claim C8. After a block of \<open>B = dsp_end - dsp_start\<close> samples in the changing mode that
  starts with a count \<open>c > 0\<close>, the count stored back into the voice is \<open>c - B\<close>, which
  is negative whenever \<open>c < B\<close>: the decrement goes on after the count has reached zero.
  The increment of each coefficient is added \<open>min c B\<close> times (each time with the rounding
  of the build), and the result is stored into the voice.
\<close>

theorem filter_transition_count:
  assumes "0 < dsp_filter_coeff_incr_count f"
    and "zap (dsp_hist1 f) = Some h"
    and "dsp_end \<le> length buf"
  shows "\<exists>voice' f' buf'.
           dsp_filter rnd zap True voice dsp_start dsp_end f buf = Some (voice', f', buf')
         \<and> filter_coeff_incr_count voice'
             = dsp_filter_coeff_incr_count f - int (dsp_end - dsp_start)
         \<and> (dsp_filter_coeff_incr_count f < int (dsp_end - dsp_start)
              \<longrightarrow> filter_coeff_incr_count voice' < 0)
         \<and> a1 voice' = ((\<lambda>a. rnd (a + a1_incr voice))
               ^^ min (nat (dsp_filter_coeff_incr_count f)) (dsp_end - dsp_start)) (dsp_a1 f)
         \<and> a2 voice' = ((\<lambda>a. rnd (a + a2_incr voice))
               ^^ min (nat (dsp_filter_coeff_incr_count f)) (dsp_end - dsp_start)) (dsp_a2 f)
         \<and> b02 voice' = ((\<lambda>a. rnd (a + b02_incr voice))
               ^^ min (nat (dsp_filter_coeff_incr_count f)) (dsp_end - dsp_start)) (dsp_b02 f)
         \<and> b1 voice' = ((\<lambda>a. rnd (a + b1_incr voice))
               ^^ min (nat (dsp_filter_coeff_incr_count f)) (dsp_end - dsp_start)) (dsp_b1 f)"
proof -
  let ?f0 = "f\<lparr>dsp_hist1 := h\<rparr>"
  define n where "n = min (nat (dsp_filter_coeff_incr_count f)) (dsp_end - dsp_start)"
  have n0: "min (nat (dsp_filter_coeff_incr_count ?f0)) (dsp_end - dsp_start) = n"
    by (simp add: n_def)
  from filter_incr_loop_coeffs [OF assms(3), of rnd "a1_incr voice" "a2_incr voice"
      "b02_incr voice" "b1_incr voice" dsp_start ?f0]
  obtain f' buf' where
    res: "filter_incr_loop rnd (a1_incr voice) (a2_incr voice) (b02_incr voice) (b1_incr voice)
            dsp_start dsp_end ?f0 buf = Some (f', buf')"
    and cnt: "dsp_filter_coeff_incr_count f'
              = dsp_filter_coeff_incr_count ?f0 - int (dsp_end - dsp_start)"
    and co: "dsp_a1 f' = ((\<lambda>a. rnd (a + a1_incr voice)) ^^ n) (dsp_a1 ?f0)"
      "dsp_a2 f' = ((\<lambda>a. rnd (a + a2_incr voice)) ^^ n) (dsp_a2 ?f0)"
      "dsp_b02 f' = ((\<lambda>a. rnd (a + b02_incr voice)) ^^ n) (dsp_b02 ?f0)"
      "dsp_b1 f' = ((\<lambda>a. rnd (a + b1_incr voice)) ^^ n) (dsp_b1 ?f0)"
    unfolding n0 by blast
  have f0: "dsp_filter_coeff_incr_count ?f0 = dsp_filter_coeff_incr_count f"
    "dsp_a1 ?f0 = dsp_a1 f" "dsp_a2 ?f0 = dsp_a2 f" "dsp_b02 ?f0 = dsp_b02 f" "dsp_b1 ?f0 = dsp_b1 f"
    by simp_all
  define voice' where "voice' = voice\<lparr>a1 := dsp_a1 f', a2 := dsp_a2 f', b02 := dsp_b02 f',
    b1 := dsp_b1 f', filter_coeff_incr_count := dsp_filter_coeff_incr_count f'\<rparr>"
  have run: "dsp_filter rnd zap True voice dsp_start dsp_end f buf = Some (voice', f', buf')"
    unfolding voice'_def using assms(2,1) res by (rule dsp_filter_incr)
  have sel: "a1 voice' = dsp_a1 f'" "a2 voice' = dsp_a2 f'" "b02 voice' = dsp_b02 f'"
    "b1 voice' = dsp_b1 f'" "filter_coeff_incr_count voice' = dsp_filter_coeff_incr_count f'"
    by (simp_all add: voice'_def)
  show ?thesis
    unfolding n_def [symmetric]
  proof (intro exI conjI impI)
    show "dsp_filter rnd zap True voice dsp_start dsp_end f buf = Some (voice', f', buf')"
      by (rule run)
    show "filter_coeff_incr_count voice' = dsp_filter_coeff_incr_count f - int (dsp_end - dsp_start)"
      unfolding sel cnt f0 by (rule refl)
    show "filter_coeff_incr_count voice' < 0"
      if "dsp_filter_coeff_incr_count f < int (dsp_end - dsp_start)"
      unfolding sel cnt f0 using that by linarith
    show "a1 voice' = ((\<lambda>a. rnd (a + a1_incr voice)) ^^ n) (dsp_a1 f)"
      unfolding sel co f0 by (rule refl)
    show "a2 voice' = ((\<lambda>a. rnd (a + a2_incr voice)) ^^ n) (dsp_a2 f)"
      unfolding sel co f0 by (rule refl)
    show "b02 voice' = ((\<lambda>a. rnd (a + b02_incr voice)) ^^ n) (dsp_b02 f)"
      unfolding sel co f0 by (rule refl)
    show "b1 voice' = ((\<lambda>a. rnd (a + b1_incr voice)) ^^ n) (dsp_b1 f)"
      unfolding sel co f0 by (rule refl)
  qed
qed

theorem filter_transition_count_witness:
  "0 < dsp_filter_coeff_incr_count
         \<lparr>dsp_a1 = 0, dsp_a2 = 0, dsp_b02 = 1, dsp_b1 = 0, dsp_hist1 = 0, dsp_hist2 = 0,
          dsp_filter_coeff_incr_count = 2\<rparr>
   \<and> dsp_filter round_double zap_almost_zero_double True
         \<lparr>a1 = 0, a2 = 0, b02 = 1, b1 = 0, a1_incr = 1, a2_incr = 2, b02_incr = 3, b1_incr = 4,
          filter_coeff_incr_count = 2, amp_left = 0, amp_right = 0, pan = 0, amp_reverb = 0,
          amp_chorus = 0\<rparr> 0 4
         \<lparr>dsp_a1 = 0, dsp_a2 = 0, dsp_b02 = 1, dsp_b1 = 0, dsp_hist1 = 0, dsp_hist2 = 0,
          dsp_filter_coeff_incr_count = 2\<rparr> [1, 1, 1, 1]
       = Some (\<lparr>a1 = 2, a2 = 4, b02 = 7, b1 = 8, a1_incr = 1, a2_incr = 2, b02_incr = 3,
          b1_incr = 4, filter_coeff_incr_count = - 2, amp_left = 0, amp_right = 0, pan = 0,
          amp_reverb = 0, amp_chorus = 0\<rparr>,
               \<lparr>dsp_a1 = 2, dsp_a2 = 4, dsp_b02 = 7, dsp_b1 = 8, dsp_hist1 = 7, dsp_hist2 = - 3,
          dsp_filter_coeff_incr_count = - 2\<rparr>,
               [1, 4, - 14, 25])
   \<and> filter_coeff_incr_count
         \<lparr>a1 = 2, a2 = 4, b02 = 7, b1 = 8, a1_incr = 1, a2_incr = 2, b02_incr = 3,
          b1_incr = 4, filter_coeff_incr_count = - 2, amp_left = 0, amp_right = 0, pan = 0,
          amp_reverb = 0, amp_chorus = 0\<rparr> = 2 - int (4 - 0)
   \<and> b02 \<lparr>a1 = 2, a2 = 4, b02 = 7, b1 = 8, a1_incr = 1, a2_incr = 2, b02_incr = 3,
          b1_incr = 4, filter_coeff_incr_count = - 2, amp_left = 0, amp_right = 0, pan = 0,
          amp_reverb = 0, amp_chorus = 0\<rparr>
     = ((\<lambda>a. round_double (a + 3)) ^^ min (nat 2) (4 - 0)) 1"
proof -
  let ?f = "\<lparr>dsp_a1 = 0, dsp_a2 = 0, dsp_b02 = 1, dsp_b1 = 0, dsp_hist1 = 0, dsp_hist2 = 0,
          dsp_filter_coeff_incr_count = 2\<rparr>"
  let ?v = "\<lparr>a1 = 0, a2 = 0, b02 = 1, b1 = 0, a1_incr = 1, a2_incr = 2, b02_incr = 3, b1_incr = 4,
          filter_coeff_incr_count = 2, amp_left = 0, amp_right = 0, pan = 0, amp_reverb = 0,
          amp_chorus = 0\<rparr>"
  let ?v1 = "\<lparr>a1 = 2, a2 = 4, b02 = 7, b1 = 8, a1_incr = 1, a2_incr = 2, b02_incr = 3,
          b1_incr = 4, filter_coeff_incr_count = - 2, amp_left = 0, amp_right = 0, pan = 0,
          amp_reverb = 0, amp_chorus = 0\<rparr>"
  have h: "0 < dsp_filter_coeff_incr_count ?f" "zap_almost_zero_double (dsp_hist1 ?f) = Some 0"
    "4 \<le> length [1, 1, 1, 1 :: real]"
    by (simp_all add: zap_almost_zero_double_0)
  have ev: "dsp_filter round_double zap_almost_zero_double True ?v 0 4 ?f [1, 1, 1, 1]
            = Some (?v1,
                    \<lparr>dsp_a1 = 2, dsp_a2 = 4, dsp_b02 = 7, dsp_b1 = 8, dsp_hist1 = 7, dsp_hist2 = - 3,
          dsp_filter_coeff_incr_count = - 2\<rparr>,
                    [1, 4, - 14, 25])"
    by (simp add: dsp_filter_def filter_incr_loop_step filter_incr_loop_done
        zap_almost_zero_double_0 round_double_int)
  from filter_transition_count [of ?f zap_almost_zero_double 0 4 "[1, 1, 1, 1]" round_double ?v 0,
      OF h]
  obtain voice' f' buf' where
    r: "dsp_filter round_double zap_almost_zero_double True ?v 0 4 ?f [1, 1, 1, 1]
        = Some (voice', f', buf')"
    and c: "filter_coeff_incr_count voice' = dsp_filter_coeff_incr_count ?f - int (4 - 0)"
    and b: "b02 voice' = ((\<lambda>a. round_double (a + b02_incr ?v))
              ^^ min (nat (dsp_filter_coeff_incr_count ?f)) (4 - 0)) (dsp_b02 ?f)"
    by blast
  from r have "voice' = ?v1"
    unfolding ev by (simp only: option.inject prod.inject)
  with c b have "filter_coeff_incr_count ?v1 = dsp_filter_coeff_incr_count ?f - int (4 - 0)"
    and "b02 ?v1 = ((\<lambda>a. round_double (a + b02_incr ?v))
              ^^ min (nat (dsp_filter_coeff_incr_count ?f)) (4 - 0)) (dsp_b02 ?f)"
    by (simp_all only:)
  then have "filter_coeff_incr_count ?v1 = 2 - int (4 - 0)"
    and "b02 ?v1 = ((\<lambda>a. round_double (a + 3)) ^^ min (nat 2) (4 - 0)) 1"
    by simp_all
  with h(1) ev show ?thesis
    by (intro conjI)
qed

lemma filter_incr_loop_split:
  "i \<le> m \<Longrightarrow> m \<le> e \<Longrightarrow>
   filter_incr_loop rnd i1 i2 i3 i4 i e f buf
   = (case filter_incr_loop rnd i1 i2 i3 i4 i m f buf of
        None \<Rightarrow> None
      | Some (f', buf') \<Rightarrow> filter_incr_loop rnd i1 i2 i3 i4 m e f' buf')"
proof (induction rnd i1 i2 i3 i4 i m f buf rule: filter_incr_loop.induct)
  case (1 rnd i1 i2 i3 i4 i m f buf)
  show ?case
  proof (cases "i < m")
    case False
    with "1.prems" have "i = m" by simp
    then show ?thesis
      by (simp add: filter_incr_loop.simps [of _ _ _ _ _ m m])
  next
    case True
    with "1.prems" have ie: "i < e" by simp
    show ?thesis
    proof (cases "buf_read buf i")
      case None
      then show ?thesis
        using True ie
        by (simp add: filter_incr_loop.simps [of _ _ _ _ _ i e]
            filter_incr_loop.simps [of _ _ _ _ _ i m])
    next
      case (Some x)
      from "1.IH" [OF True Some refl refl refl refl] True "1.prems"
      show ?thesis
        using True ie Some
        by (simp add: filter_incr_loop.simps [of _ _ _ _ _ i e]
            filter_incr_loop.simps [of _ _ _ _ _ i m] Let_def)
    qed
  qed
qed

text \<open>
  Claim C3, as stated: after \<open>c\<close> samples each stored coefficient equals its initial value
  plus \<open>c\<close> times its increment, exactly. Each of the \<open>c\<close> additions rounds. In the
  \<open>double\<close> build, with \<open>a1 = 2 ^ 53\<close> (9007199254740992), an increment of 1 and \<open>c = 2\<close>,
  each sum \<open>2 ^ 53 + 1\<close> is rounded back to \<open>2 ^ 53\<close>: after the block the stored \<open>a1\<close> is
  \<open>2 ^ 53\<close>, not \<open>2 ^ 53 + 2\<close>.
\<close>

theorem filter_transition_exact_counterexample:
  "dsp_filter round_double zap_almost_zero_double True
     \<lparr>a1 = 9007199254740992, a2 = 0, b02 = 0, b1 = 0, a1_incr = 1, a2_incr = 0, b02_incr = 0,
      b1_incr = 0, filter_coeff_incr_count = 2, amp_left = 0, amp_right = 0, pan = 0,
      amp_reverb = 0, amp_chorus = 0\<rparr> 0 2
     \<lparr>dsp_a1 = 9007199254740992, dsp_a2 = 0, dsp_b02 = 0, dsp_b1 = 0, dsp_hist1 = 0,
      dsp_hist2 = 0, dsp_filter_coeff_incr_count = 2\<rparr> [0, 0]
   = Some (\<lparr>a1 = 9007199254740992, a2 = 0, b02 = 0, b1 = 0, a1_incr = 1, a2_incr = 0,
            b02_incr = 0, b1_incr = 0, filter_coeff_incr_count = 0, amp_left = 0, amp_right = 0,
            pan = 0, amp_reverb = 0, amp_chorus = 0\<rparr>,
           \<lparr>dsp_a1 = 9007199254740992, dsp_a2 = 0, dsp_b02 = 0, dsp_b1 = 0, dsp_hist1 = 0,
            dsp_hist2 = 0, dsp_filter_coeff_incr_count = 0\<rparr>,
           [0, 0])
   \<and> (9007199254740992 :: real) = 2 ^ 53
   \<and> (9007199254740992 :: real) \<noteq> 9007199254740992 + 2 * 1"
  by (simp add: dsp_filter_def filter_incr_loop_step filter_incr_loop_done
      zap_almost_zero_double_0 round_double_int round_double_tie)

text \<open>
  Claim C3, amended. In the changing mode, for a count \<open>c > 0\<close> and a block of at least
  \<open>c\<close> samples: after exactly \<open>c\<close> samples (the loop run from \<open>dsp_start\<close> to
  \<open>dsp_start + c\<close>) each of the coefficients \<open>a1\<close>, \<open>a2\<close>, \<open>b02\<close>, \<open>b1\<close> is the result
  of \<open>c\<close> successive rounded additions of its increment to its initial value; the rest of
  the block (the loop run on from there to \<open>dsp_end\<close>) leaves the four coefficients as
  they are; and these are the values stored into the voice at the end of the block.
  (When none of the additions rounds, the result is the initial value plus \<open>c\<close> times the
  increment: lemma \<open>funpow_add_exact\<close>.)
\<close>

theorem filter_transition_reaches_target:
  assumes "0 < dsp_filter_coeff_incr_count f"
    and "zap (dsp_hist1 f) = Some h"
    and "dsp_start + nat (dsp_filter_coeff_incr_count f) \<le> dsp_end"
    and "dsp_end \<le> length buf"
  shows "\<exists>fc bufc voice' f' buf'.
           filter_incr_loop rnd (a1_incr voice) (a2_incr voice) (b02_incr voice) (b1_incr voice)
             dsp_start (dsp_start + nat (dsp_filter_coeff_incr_count f)) (f\<lparr>dsp_hist1 := h\<rparr>) buf
           = Some (fc, bufc)
         \<and> dsp_a1 fc = ((\<lambda>a. rnd (a + a1_incr voice))
                          ^^ nat (dsp_filter_coeff_incr_count f)) (dsp_a1 f)
         \<and> dsp_a2 fc = ((\<lambda>a. rnd (a + a2_incr voice))
                          ^^ nat (dsp_filter_coeff_incr_count f)) (dsp_a2 f)
         \<and> dsp_b02 fc = ((\<lambda>a. rnd (a + b02_incr voice))
                          ^^ nat (dsp_filter_coeff_incr_count f)) (dsp_b02 f)
         \<and> dsp_b1 fc = ((\<lambda>a. rnd (a + b1_incr voice))
                          ^^ nat (dsp_filter_coeff_incr_count f)) (dsp_b1 f)
         \<and> filter_incr_loop rnd (a1_incr voice) (a2_incr voice) (b02_incr voice) (b1_incr voice)
             (dsp_start + nat (dsp_filter_coeff_incr_count f)) dsp_end fc bufc
           = Some (f', buf')
         \<and> dsp_a1 f' = dsp_a1 fc \<and> dsp_a2 f' = dsp_a2 fc
         \<and> dsp_b02 f' = dsp_b02 fc \<and> dsp_b1 f' = dsp_b1 fc
         \<and> dsp_filter rnd zap True voice dsp_start dsp_end f buf = Some (voice', f', buf')
         \<and> a1 voice' = ((\<lambda>a. rnd (a + a1_incr voice))
                          ^^ nat (dsp_filter_coeff_incr_count f)) (dsp_a1 f)
         \<and> a2 voice' = ((\<lambda>a. rnd (a + a2_incr voice))
                          ^^ nat (dsp_filter_coeff_incr_count f)) (dsp_a2 f)
         \<and> b02 voice' = ((\<lambda>a. rnd (a + b02_incr voice))
                          ^^ nat (dsp_filter_coeff_incr_count f)) (dsp_b02 f)
         \<and> b1 voice' = ((\<lambda>a. rnd (a + b1_incr voice))
                          ^^ nat (dsp_filter_coeff_incr_count f)) (dsp_b1 f)"
proof -
  define c where "c = nat (dsp_filter_coeff_incr_count f)"
  define m where "m = dsp_start + c"
  let ?f0 = "f\<lparr>dsp_hist1 := h\<rparr>"
  let ?loop = "filter_incr_loop rnd (a1_incr voice) (a2_incr voice) (b02_incr voice)
                 (b1_incr voice)"
  from assms have cpos: "0 < c" and mle: "dsp_start \<le> m" "m \<le> dsp_end" "m \<le> length buf"
    by (simp_all add: c_def m_def)
  have f0: "dsp_a1 ?f0 = dsp_a1 f" "dsp_a2 ?f0 = dsp_a2 f" "dsp_b02 ?f0 = dsp_b02 f"
    "dsp_b1 ?f0 = dsp_b1 f"
    by simp_all
  have n1: "min (nat (dsp_filter_coeff_incr_count ?f0)) (m - dsp_start) = c"
    by (simp add: c_def m_def)
  from filter_incr_loop_coeffs [OF mle(3), of rnd "a1_incr voice" "a2_incr voice"
      "b02_incr voice" "b1_incr voice" dsp_start ?f0]
  obtain fc bufc where
    r1: "?loop dsp_start m ?f0 buf = Some (fc, bufc)"
    and l1: "length bufc = length buf"
    and k1: "dsp_filter_coeff_incr_count fc
             = dsp_filter_coeff_incr_count ?f0 - int (m - dsp_start)"
    and c1: "dsp_a1 fc = ((\<lambda>a. rnd (a + a1_incr voice)) ^^ c) (dsp_a1 f)"
      "dsp_a2 fc = ((\<lambda>a. rnd (a + a2_incr voice)) ^^ c) (dsp_a2 f)"
      "dsp_b02 fc = ((\<lambda>a. rnd (a + b02_incr voice)) ^^ c) (dsp_b02 f)"
      "dsp_b1 fc = ((\<lambda>a. rnd (a + b1_incr voice)) ^^ c) (dsp_b1 f)"
    unfolding n1 f0 by blast
  have k0: "dsp_filter_coeff_incr_count fc = 0"
    using k1 assms(1) by (simp add: c_def m_def)
  have n2: "min (nat (dsp_filter_coeff_incr_count fc)) (dsp_end - m) = 0"
    by (simp add: k0)
  from assms(4) l1 have "dsp_end \<le> length bufc" by simp
  from filter_incr_loop_coeffs [OF this, of rnd "a1_incr voice" "a2_incr voice" "b02_incr voice"
      "b1_incr voice" m fc]
  obtain f' buf' where
    r2: "?loop m dsp_end fc bufc = Some (f', buf')"
    and c2: "dsp_a1 f' = ((\<lambda>a. rnd (a + a1_incr voice)) ^^ 0) (dsp_a1 fc)"
      "dsp_a2 f' = ((\<lambda>a. rnd (a + a2_incr voice)) ^^ 0) (dsp_a2 fc)"
      "dsp_b02 f' = ((\<lambda>a. rnd (a + b02_incr voice)) ^^ 0) (dsp_b02 fc)"
      "dsp_b1 f' = ((\<lambda>a. rnd (a + b1_incr voice)) ^^ 0) (dsp_b1 fc)"
    unfolding n2 by blast
  have whole: "?loop dsp_start dsp_end ?f0 buf = Some (f', buf')"
    using filter_incr_loop_split [OF mle(1,2), of rnd "a1_incr voice" "a2_incr voice"
        "b02_incr voice" "b1_incr voice" ?f0 buf] r1 r2
    by simp
  define voice' where "voice' = voice\<lparr>a1 := dsp_a1 f', a2 := dsp_a2 f', b02 := dsp_b02 f',
    b1 := dsp_b1 f', filter_coeff_incr_count := dsp_filter_coeff_incr_count f'\<rparr>"
  have run: "dsp_filter rnd zap True voice dsp_start dsp_end f buf = Some (voice', f', buf')"
    unfolding voice'_def using assms(2,1) whole by (rule dsp_filter_incr)
  have sel: "a1 voice' = dsp_a1 f'" "a2 voice' = dsp_a2 f'" "b02 voice' = dsp_b02 f'"
    "b1 voice' = dsp_b1 f'"
    by (simp_all add: voice'_def)
  have c2': "dsp_a1 f' = dsp_a1 fc" "dsp_a2 f' = dsp_a2 fc"
    "dsp_b02 f' = dsp_b02 fc" "dsp_b1 f' = dsp_b1 fc"
    using c2 by simp_all
  show ?thesis
    unfolding c_def [symmetric] m_def [symmetric]
  proof (intro exI conjI)
    show "?loop dsp_start m ?f0 buf = Some (fc, bufc)" by (rule r1)
    show "?loop m dsp_end fc bufc = Some (f', buf')" by (rule r2)
    show "dsp_filter rnd zap True voice dsp_start dsp_end f buf = Some (voice', f', buf')"
      by (rule run)
  qed (simp_all only: sel c1 c2')
qed

theorem filter_transition_reaches_target_witness:
  "0 < dsp_filter_coeff_incr_count
     \<lparr>dsp_a1 = 1, dsp_a2 = 0, dsp_b02 = 1, dsp_b1 = 0, dsp_hist1 = 0, dsp_hist2 = 0,
       dsp_filter_coeff_incr_count = 2\<rparr>
   \<and> 1 + nat (dsp_filter_coeff_incr_count
     \<lparr>dsp_a1 = 1, dsp_a2 = 0, dsp_b02 = 1, dsp_b1 = 0, dsp_hist1 = 0, dsp_hist2 = 0,
       dsp_filter_coeff_incr_count = 2\<rparr>) \<le> 4
   \<and> dsp_filter round_double zap_almost_zero_double True
     \<lparr>a1 = 1, a2 = 0, b02 = 1, b1 = 0, a1_incr = 1, a2_incr = - 1, b02_incr = 2, b1_incr = 0,
       filter_coeff_incr_count = 2, amp_left = 0, amp_right = 0, pan = 0, amp_reverb = 0,
       amp_chorus = 0\<rparr> 1 4
     \<lparr>dsp_a1 = 1, dsp_a2 = 0, dsp_b02 = 1, dsp_b1 = 0, dsp_hist1 = 0, dsp_hist2 = 0,
       dsp_filter_coeff_incr_count = 2\<rparr> [5, 1, 2, 3]
     = Some (\<lparr>a1 = 3, a2 = - 2, b02 = 5, b1 = 0, a1_incr = 1, a2_incr = - 1, b02_incr = 2,
       b1_incr = 0, filter_coeff_incr_count = - 1, amp_left = 0, amp_right = 0, pan = 0,
       amp_reverb = 0, amp_chorus = 0\<rparr>,
             \<lparr>dsp_a1 = 3, dsp_a2 = - 2, dsp_b02 = 5, dsp_b1 = 0, dsp_hist1 = 5, dsp_hist2 = 0,
       dsp_filter_coeff_incr_count = - 1\<rparr>,
             [5, 1, 0, 30])
   \<and> a1 \<lparr>a1 = 3, a2 = - 2, b02 = 5, b1 = 0, a1_incr = 1, a2_incr = - 1, b02_incr = 2,
       b1_incr = 0, filter_coeff_incr_count = - 1, amp_left = 0, amp_right = 0, pan = 0,
       amp_reverb = 0, amp_chorus = 0\<rparr> = ((\<lambda>a. round_double (a + 1)) ^^ nat 2) 1
   \<and> a2 \<lparr>a1 = 3, a2 = - 2, b02 = 5, b1 = 0, a1_incr = 1, a2_incr = - 1, b02_incr = 2,
       b1_incr = 0, filter_coeff_incr_count = - 1, amp_left = 0, amp_right = 0, pan = 0,
       amp_reverb = 0, amp_chorus = 0\<rparr> = ((\<lambda>a. round_double (a + - 1)) ^^ nat 2) 0
   \<and> b02 \<lparr>a1 = 3, a2 = - 2, b02 = 5, b1 = 0, a1_incr = 1, a2_incr = - 1, b02_incr = 2,
       b1_incr = 0, filter_coeff_incr_count = - 1, amp_left = 0, amp_right = 0, pan = 0,
       amp_reverb = 0, amp_chorus = 0\<rparr> = ((\<lambda>a. round_double (a + 2)) ^^ nat 2) 1"
proof -
  let ?f = "\<lparr>dsp_a1 = 1, dsp_a2 = 0, dsp_b02 = 1, dsp_b1 = 0, dsp_hist1 = 0, dsp_hist2 = 0,
       dsp_filter_coeff_incr_count = 2\<rparr>"
  let ?v = "\<lparr>a1 = 1, a2 = 0, b02 = 1, b1 = 0, a1_incr = 1, a2_incr = - 1, b02_incr = 2, b1_incr = 0,
       filter_coeff_incr_count = 2, amp_left = 0, amp_right = 0, pan = 0, amp_reverb = 0,
       amp_chorus = 0\<rparr>"
  let ?v1 = "\<lparr>a1 = 3, a2 = - 2, b02 = 5, b1 = 0, a1_incr = 1, a2_incr = - 1, b02_incr = 2,
       b1_incr = 0, filter_coeff_incr_count = - 1, amp_left = 0, amp_right = 0, pan = 0,
       amp_reverb = 0, amp_chorus = 0\<rparr>"
  have h: "0 < dsp_filter_coeff_incr_count ?f" "zap_almost_zero_double (dsp_hist1 ?f) = Some 0"
    "1 + nat (dsp_filter_coeff_incr_count ?f) \<le> 4" "4 \<le> length [5, 1, 2, 3 :: real]"
    by (simp_all add: zap_almost_zero_double_0)
  have ev: "dsp_filter round_double zap_almost_zero_double True ?v 1 4 ?f [5, 1, 2, 3]
            = Some (?v1,
                    \<lparr>dsp_a1 = 3, dsp_a2 = - 2, dsp_b02 = 5, dsp_b1 = 0, dsp_hist1 = 5, dsp_hist2 = 0,
       dsp_filter_coeff_incr_count = - 1\<rparr>,
                    [5, 1, 0, 30])"
    by (simp add: dsp_filter_def filter_incr_loop_step filter_incr_loop_done
        zap_almost_zero_double_0 round_double_int)
  from filter_transition_reaches_target
    [of ?f zap_almost_zero_double 0 1 4 "[5, 1, 2, 3]" round_double ?v, OF h]
  obtain voice' f' buf' where
    r: "dsp_filter round_double zap_almost_zero_double True ?v 1 4 ?f [5, 1, 2, 3]
        = Some (voice', f', buf')"
    and c: "a1 voice' = ((\<lambda>a. round_double (a + a1_incr ?v))
                           ^^ nat (dsp_filter_coeff_incr_count ?f)) (dsp_a1 ?f)"
      "a2 voice' = ((\<lambda>a. round_double (a + a2_incr ?v))
                           ^^ nat (dsp_filter_coeff_incr_count ?f)) (dsp_a2 ?f)"
      "b02 voice' = ((\<lambda>a. round_double (a + b02_incr ?v))
                           ^^ nat (dsp_filter_coeff_incr_count ?f)) (dsp_b02 ?f)"
    by blast
  from r have "voice' = ?v1"
    unfolding ev by (simp only: option.inject prod.inject)
  with c have "a1 ?v1 = ((\<lambda>a. round_double (a + a1_incr ?v))
                           ^^ nat (dsp_filter_coeff_incr_count ?f)) (dsp_a1 ?f)"
    "a2 ?v1 = ((\<lambda>a. round_double (a + a2_incr ?v))
                           ^^ nat (dsp_filter_coeff_incr_count ?f)) (dsp_a2 ?f)"
    "b02 ?v1 = ((\<lambda>a. round_double (a + b02_incr ?v))
                           ^^ nat (dsp_filter_coeff_incr_count ?f)) (dsp_b02 ?f)"
    by (simp_all only:)
  then have "a1 ?v1 = ((\<lambda>a. round_double (a + 1)) ^^ nat 2) 1"
    "a2 ?v1 = ((\<lambda>a. round_double (a + - 1)) ^^ nat 2) 0"
    "b02 ?v1 = ((\<lambda>a. round_double (a + 2)) ^^ nat 2) 1"
    by simp_all
  with h(1,3) ev show ?thesis
    by (intro conjI)
qed

lemma take_Suc_update: "i < length xs \<Longrightarrow> take (Suc i) (xs[i := v]) = take i xs @ [v]"
  by (simp add: take_Suc_conv_app_nth)

lemma block_head:
  "i < e \<Longrightarrow> e \<le> length xs \<Longrightarrow>
   take (e - i) (drop i xs) = xs ! i # take (e - Suc i) (drop (Suc i) xs)"
proof -
  assume a: "i < e" "e \<le> length xs"
  then have "drop i xs = xs ! i # drop (Suc i) xs"
    by (simp add: Cons_nth_drop_Suc)
  moreover from a have "e - i = Suc (e - Suc i)" by simp
  ultimately show ?thesis by simp
qed

lemma filter_incr_loop_refines:
  assumes "i \<le> dsp_end" and "dsp_end \<le> length buf"
  shows "\<exists>f'. filter_incr_loop rnd i1 i2 i3 i4 i dsp_end f buf
             = Some (f', take i buf
                       @ fst (spec_filter_block rnd (i1, i2, i3, i4) (filter_abs f)
                                (take (dsp_end - i) (drop i buf)))
                       @ drop dsp_end buf)
           \<and> filter_abs f' = snd (spec_filter_block rnd (i1, i2, i3, i4) (filter_abs f)
                                    (take (dsp_end - i) (drop i buf)))"
  using assms
proof (induction rnd i1 i2 i3 i4 i dsp_end f buf rule: filter_incr_loop.induct)
  case (1 rnd i1 i2 i3 i4 i e f buf)
  show ?case
  proof (cases "i < e")
    case False
    with "1.prems" have "i = e" by simp
    then show ?thesis
      by (simp add: filter_incr_loop.simps [of _ _ _ _ _ e e])
  next
    case True
    with "1.prems" have il: "i < length buf" by simp
    then have rb: "buf_read buf i = Some (buf ! i)"
      by (simp add: buf_read_in)
    define cn where "cn = rnd (rnd (buf ! i - rnd (dsp_a1 f * dsp_hist1 f))
                               - rnd (dsp_a2 f * dsp_hist2 f))"
    define out where "out = rnd (rnd (dsp_b02 f * rnd (cn + dsp_hist2 f))
                                 + rnd (dsp_b1 f * dsp_hist1 f))"
    define f1 where "f1 = f\<lparr>dsp_hist2 := dsp_hist1 f, dsp_hist1 := cn,
      dsp_filter_coeff_incr_count := dsp_filter_coeff_incr_count f - 1\<rparr>"
    define f2 where "f2 = (if dsp_filter_coeff_incr_count f > 0
      then f1\<lparr>dsp_a1 := rnd (dsp_a1 f + i1), dsp_a2 := rnd (dsp_a2 f + i2),
              dsp_b02 := rnd (dsp_b02 f + i3), dsp_b1 := rnd (dsp_b1 f + i4)\<rparr> else f1)"
    define rest where "rest = take (e - Suc i) (drop (Suc i) buf)"
    define R where "R = spec_filter_block rnd (i1, i2, i3, i4) (filter_abs f2) rest"
    from True "1.prems" have len: "Suc i \<le> e" "e \<le> length (buf[i := out])" by simp_all
    have rest': "take (e - Suc i) (drop (Suc i) (buf[i := out])) = rest"
      by (simp add: rest_def)
    from "1.IH" [OF True rb cn_def out_def f1_def f2_def len]
    obtain f' where res: "filter_incr_loop rnd i1 i2 i3 i4 (Suc i) e f2 (buf[i := out])
        = Some (f', take (Suc i) (buf[i := out]) @ fst R @ drop e (buf[i := out]))"
      and fin: "filter_abs f' = snd R"
      unfolding rest' R_def by blast
    have step: "filter_incr_loop rnd i1 i2 i3 i4 i e f buf
                = filter_incr_loop rnd i1 i2 i3 i4 (Suc i) e f2 (buf[i := out])"
      using True rb by (subst filter_incr_loop.simps) (simp add: Let_def cn_def out_def f1_def f2_def)
    have df: "spec_direct_form_II rnd (filter_abs f) (buf ! i)
              = (out, (filter_abs f)\<lparr>spec_hist2 := dsp_hist1 f, spec_hist1 := cn\<rparr>)"
      by (simp add: spec_direct_form_II_def filter_abs_def Let_def cn_def out_def)
    have gl: "spec_glide rnd (i1, i2, i3, i4) ((filter_abs f)\<lparr>spec_hist2 := dsp_hist1 f, spec_hist1 := cn\<rparr>)
              = filter_abs f2"
      by (simp add: spec_glide_def filter_abs_def f2_def f1_def nat_diff_distrib)
    have blk: "spec_filter_block rnd (i1, i2, i3, i4) (filter_abs f) (take (e - i) (drop i buf))
               = (out # fst R, snd R)"
      unfolding block_head [OF True "1.prems"(2)] rest_def [symmetric]
      by (simp add: df gl R_def split: prod.splits)
    have bufs: "take (Suc i) (buf[i := out]) @ fst R @ drop e (buf[i := out])
                = take i buf @ (out # fst R) @ drop e buf"
      using il True by (simp add: take_Suc_update)
    show ?thesis
      unfolding step blk using res fin bufs by simp
  qed
qed

lemma filter_fixed_loop_refines:
  assumes "i \<le> dsp_end" and "dsp_end \<le> length buf"
    and "dsp_filter_coeff_incr_count f \<le> 0"
  shows "\<exists>f'. filter_fixed_loop rnd i dsp_end f buf
             = Some (f', take i buf
                       @ fst (spec_filter_block rnd incr (filter_abs f)
                                (take (dsp_end - i) (drop i buf)))
                       @ drop dsp_end buf)
           \<and> filter_abs f' = snd (spec_filter_block rnd incr (filter_abs f)
                                    (take (dsp_end - i) (drop i buf)))"
  using assms
proof (induction rnd i dsp_end f buf rule: filter_fixed_loop.induct)
  case (1 rnd i e f buf)
  show ?case
  proof (cases "i < e")
    case False
    with "1.prems" have "i = e" by simp
    then show ?thesis
      by (simp add: filter_fixed_loop.simps [of _ e e])
  next
    case True
    with "1.prems" have il: "i < length buf" by simp
    then have rb: "buf_read buf i = Some (buf ! i)"
      by (simp add: buf_read_in)
    define cn where "cn = rnd (rnd (buf ! i - rnd (dsp_a1 f * dsp_hist1 f))
                               - rnd (dsp_a2 f * dsp_hist2 f))"
    define out where "out = rnd (rnd (dsp_b02 f * rnd (cn + dsp_hist2 f))
                                 + rnd (dsp_b1 f * dsp_hist1 f))"
    define f2 where "f2 = f\<lparr>dsp_hist2 := dsp_hist1 f, dsp_hist1 := cn\<rparr>"
    define rest where "rest = take (e - Suc i) (drop (Suc i) buf)"
    define R where "R = spec_filter_block rnd incr (filter_abs f2) rest"
    from True "1.prems" have len: "Suc i \<le> e" "e \<le> length (buf[i := out])"
      and cnt: "dsp_filter_coeff_incr_count f2 \<le> 0"
      by (simp_all add: f2_def)
    have rest': "take (e - Suc i) (drop (Suc i) (buf[i := out])) = rest"
      by (simp add: rest_def)
    from "1.IH" [OF True rb cn_def out_def len cnt [unfolded f2_def]]
    obtain f' where res: "filter_fixed_loop rnd (Suc i) e f2 (buf[i := out])
        = Some (f', take (Suc i) (buf[i := out]) @ fst R @ drop e (buf[i := out]))"
      and fin: "filter_abs f' = snd R"
      unfolding rest' R_def f2_def by blast
    have step: "filter_fixed_loop rnd i e f buf = filter_fixed_loop rnd (Suc i) e f2 (buf[i := out])"
      using True rb by (subst filter_fixed_loop.simps) (simp add: Let_def cn_def out_def f2_def)
    have df: "spec_direct_form_II rnd (filter_abs f) (buf ! i)
              = (out, (filter_abs f)\<lparr>spec_hist2 := dsp_hist1 f, spec_hist1 := cn\<rparr>)"
      by (simp add: spec_direct_form_II_def filter_abs_def Let_def cn_def out_def)
    have gl: "spec_glide rnd incr ((filter_abs f)\<lparr>spec_hist2 := dsp_hist1 f, spec_hist1 := cn\<rparr>)
              = filter_abs f2"
      using "1.prems"(3) by (simp add: spec_glide_def filter_abs_def f2_def split: prod.splits)
    have blk: "spec_filter_block rnd incr (filter_abs f) (take (e - i) (drop i buf))
               = (out # fst R, snd R)"
      unfolding block_head [OF True "1.prems"(2)] rest_def [symmetric]
      by (simp add: df gl R_def split: prod.splits)
    have bufs: "take (Suc i) (buf[i := out]) @ fst R @ drop e (buf[i := out])
                = take i buf @ (out # fst R) @ drop e buf"
      using il True by (simp add: take_Suc_update)
    show ?thesis
      unfolding step blk using res fin bufs by simp
  qed
qed

text \<open>
  Claim C4. With the filter enabled, the block \<open>dsp_buf[dsp_start .. dsp_end)\<close> is replaced
  by the outputs of the specification's filter run over it, sample by sample:
  \<open>centernode = in - a1 * hist1 - a2 * hist2\<close>,
  \<open>out = b02 * (centernode + hist2) + b1 * hist1\<close>, \<open>hist2\<close> takes \<open>hist1\<close> and \<open>hist1\<close>
  takes \<open>centernode\<close>; the rest of the buffer is unchanged, and the history registers and
  coefficients end as those of the specification's filter. This holds for the loop with
  constant coefficients (count not positive) and for the loop with changing coefficients,
  and for every rounding of the operations.
\<close>

theorem dsp_filter_direct_form_II:
  assumes "zap (dsp_hist1 f) = Some h"
    and "dsp_start \<le> dsp_end" and "dsp_end \<le> length buf"
  shows "\<exists>voice' f'.
           dsp_filter rnd zap True voice dsp_start dsp_end f buf
           = Some (voice', f',
                   take dsp_start buf
                   @ fst (spec_filter_block rnd
                            (a1_incr voice, a2_incr voice, b02_incr voice, b1_incr voice)
                            (filter_abs (f\<lparr>dsp_hist1 := h\<rparr>))
                            (take (dsp_end - dsp_start) (drop dsp_start buf)))
                   @ drop dsp_end buf)
         \<and> filter_abs f'
           = snd (spec_filter_block rnd
                    (a1_incr voice, a2_incr voice, b02_incr voice, b1_incr voice)
                    (filter_abs (f\<lparr>dsp_hist1 := h\<rparr>))
                    (take (dsp_end - dsp_start) (drop dsp_start buf)))"
proof (cases "0 < dsp_filter_coeff_incr_count f")
  case True
  let ?f0 = "f\<lparr>dsp_hist1 := h\<rparr>"
  define R where "R = spec_filter_block rnd
    (a1_incr voice, a2_incr voice, b02_incr voice, b1_incr voice) (filter_abs ?f0)
    (take (dsp_end - dsp_start) (drop dsp_start buf))"
  from filter_incr_loop_refines [OF assms(2,3), of rnd "a1_incr voice" "a2_incr voice"
      "b02_incr voice" "b1_incr voice" ?f0]
  obtain f' where
    res: "filter_incr_loop rnd (a1_incr voice) (a2_incr voice) (b02_incr voice) (b1_incr voice)
            dsp_start dsp_end ?f0 buf
          = Some (f', take dsp_start buf @ fst R @ drop dsp_end buf)"
    and fin: "filter_abs f' = snd R"
    unfolding R_def by blast
  have "dsp_filter rnd zap True voice dsp_start dsp_end f buf
        = Some (voice\<lparr>a1 := dsp_a1 f', a2 := dsp_a2 f', b02 := dsp_b02 f', b1 := dsp_b1 f',
                       filter_coeff_incr_count := dsp_filter_coeff_incr_count f'\<rparr>,
                f', take dsp_start buf @ fst R @ drop dsp_end buf)"
    using assms(1) True res by (rule dsp_filter_incr)
  with fin show ?thesis
    unfolding R_def by blast
next
  case False
  let ?f0 = "f\<lparr>dsp_hist1 := h\<rparr>"
  define R where "R = spec_filter_block rnd
    (a1_incr voice, a2_incr voice, b02_incr voice, b1_incr voice) (filter_abs ?f0)
    (take (dsp_end - dsp_start) (drop dsp_start buf))"
  from False have "dsp_filter_coeff_incr_count ?f0 \<le> 0" by simp
  from filter_fixed_loop_refines [OF assms(2,3) this,
      of rnd "(a1_incr voice, a2_incr voice, b02_incr voice, b1_incr voice)"]
  obtain f' where
    res: "filter_fixed_loop rnd dsp_start dsp_end ?f0 buf
          = Some (f', take dsp_start buf @ fst R @ drop dsp_end buf)"
    and fin: "filter_abs f' = snd R"
    unfolding R_def by blast
  have "dsp_filter rnd zap True voice dsp_start dsp_end f buf
        = Some (voice, f', take dsp_start buf @ fst R @ drop dsp_end buf)"
    using assms(1) False res by (rule dsp_filter_fixed)
  with fin show ?thesis
    unfolding R_def by blast
qed

theorem dsp_filter_direct_form_II_witness:
  "dsp_filter round_double zap_almost_zero_double True
     \<lparr>a1 = 0, a2 = 0, b02 = 0, b1 = 0, a1_incr = 1, a2_incr = 0, b02_incr = 0, b1_incr = 1,
       filter_coeff_incr_count = 0, amp_left = 0, amp_right = 0, pan = 0, amp_reverb = 0,
       amp_chorus = 0\<rparr> 1 4
     \<lparr>dsp_a1 = 1, dsp_a2 = 1, dsp_b02 = 2, dsp_b1 = 1, dsp_hist1 = 1, dsp_hist2 = 2,
       dsp_filter_coeff_incr_count = 1\<rparr> [9, 1, 2, 3]
   = Some (\<lparr>a1 = 2, a2 = 1, b02 = 2, b1 = 2, a1_incr = 1, a2_incr = 0, b02_incr = 0,
       b1_incr = 1, filter_coeff_incr_count = - 2, amp_left = 0, amp_right = 0, pan = 0,
       amp_reverb = 0, amp_chorus = 0\<rparr>,
           \<lparr>dsp_a1 = 2, dsp_a2 = 1, dsp_b02 = 2, dsp_b1 = 2, dsp_hist1 = - 5, dsp_hist2 = 5,
       dsp_filter_coeff_incr_count = - 2\<rparr>,
           [9, 1, 8, - 4])
   \<and> spec_filter_block round_double (1, 0, 0, 1)
       (filter_abs \<lparr>dsp_a1 = 1, dsp_a2 = 1, dsp_b02 = 2, dsp_b1 = 1, dsp_hist1 = 1, dsp_hist2 = 2,
       dsp_filter_coeff_incr_count = 1\<rparr>) [1, 2, 3]
     = ([1, 8, - 4],
        \<lparr>spec_a1 = 2, spec_a2 = 1, spec_b02 = 2, spec_b1 = 2, spec_hist1 = - 5, spec_hist2 = 5,
         spec_count = 0\<rparr>)
   \<and> filter_abs \<lparr>dsp_a1 = 2, dsp_a2 = 1, dsp_b02 = 2, dsp_b1 = 2, dsp_hist1 = - 5, dsp_hist2 = 5,
       dsp_filter_coeff_incr_count = - 2\<rparr>
     = \<lparr>spec_a1 = 2, spec_a2 = 1, spec_b02 = 2, spec_b1 = 2, spec_hist1 = - 5, spec_hist2 = 5,
         spec_count = 0\<rparr>"
proof -
  let ?g = "\<lparr>dsp_a1 = 1, dsp_a2 = 1, dsp_b02 = 2, dsp_b1 = 1, dsp_hist1 = 1, dsp_hist2 = 2,
       dsp_filter_coeff_incr_count = 1\<rparr>"
  let ?w = "\<lparr>a1 = 0, a2 = 0, b02 = 0, b1 = 0, a1_incr = 1, a2_incr = 0, b02_incr = 0, b1_incr = 1,
       filter_coeff_incr_count = 0, amp_left = 0, amp_right = 0, pan = 0, amp_reverb = 0,
       amp_chorus = 0\<rparr>"
  let ?g1 = "\<lparr>dsp_a1 = 2, dsp_a2 = 1, dsp_b02 = 2, dsp_b1 = 2, dsp_hist1 = - 5, dsp_hist2 = 5,
       dsp_filter_coeff_incr_count = - 2\<rparr>"
  let ?S = "\<lparr>spec_a1 = 2, spec_a2 = 1, spec_b02 = 2, spec_b1 = 2, spec_hist1 = - 5,
    spec_hist2 = 5, spec_count = 0\<rparr> :: spec_filter"
  have h: "zap_almost_zero_double (dsp_hist1 ?g) = Some 1" "(1 :: nat) \<le> 4" "4 \<le> length [9, 1, 2, 3 :: real]"
    by (simp_all add: zap_almost_zero_double_1)
  have ev: "dsp_filter round_double zap_almost_zero_double True ?w 1 4 ?g [9, 1, 2, 3]
            = Some (\<lparr>a1 = 2, a2 = 1, b02 = 2, b1 = 2, a1_incr = 1, a2_incr = 0, b02_incr = 0,
       b1_incr = 1, filter_coeff_incr_count = - 2, amp_left = 0, amp_right = 0, pan = 0,
       amp_reverb = 0, amp_chorus = 0\<rparr>,
                    ?g1, [9, 1, 8, - 4])"
    by (simp add: dsp_filter_def filter_incr_loop_step filter_incr_loop_done
        zap_almost_zero_double_1 round_double_int)
  have blk: "take (4 - 1) (drop 1 [9, 1, 2, 3 :: real]) = [1, 2, 3]"
    by simp
  have g0: "?g\<lparr>dsp_hist1 := 1\<rparr> = ?g"
    by simp
  have sp: "spec_filter_block round_double (1, 0, 0, 1) (filter_abs ?g) [1, 2, 3] = ([1, 8, - 4], ?S)"
    by (simp add: spec_direct_form_II_def spec_glide_def filter_abs_def Let_def round_double_int)
  from dsp_filter_direct_form_II [of zap_almost_zero_double ?g 1 1 4 "[9, 1, 2, 3]" round_double ?w, OF h]
  obtain voice' f' where
    r: "dsp_filter round_double zap_almost_zero_double True ?w 1 4 ?g [9, 1, 2, 3]
        = Some (voice', f', take 1 [9, 1, 2, 3]
                  @ fst (spec_filter_block round_double (a1_incr ?w, a2_incr ?w, b02_incr ?w, b1_incr ?w)
                           (filter_abs (?g\<lparr>dsp_hist1 := 1\<rparr>))
                           (take (4 - 1) (drop 1 [9, 1, 2, 3])))
                  @ drop 4 [9, 1, 2, 3])"
    and a: "filter_abs f'
        = snd (spec_filter_block round_double (a1_incr ?w, a2_incr ?w, b02_incr ?w, b1_incr ?w)
                 (filter_abs (?g\<lparr>dsp_hist1 := 1\<rparr>))
                 (take (4 - 1) (drop 1 [9, 1, 2, 3])))"
    by blast
  from r have "f' = ?g1"
    unfolding ev by (simp only: option.inject prod.inject)
  with a have "filter_abs ?g1
        = snd (spec_filter_block round_double (a1_incr ?w, a2_incr ?w, b02_incr ?w, b1_incr ?w)
                 (filter_abs (?g\<lparr>dsp_hist1 := 1\<rparr>))
                 (take (4 - 1) (drop 1 [9, 1, 2, 3])))"
    by (simp only:)
  moreover have "(a1_incr ?w, a2_incr ?w, b02_incr ?w, b1_incr ?w) = (1, 0, 0, 1)"
    by simp
  ultimately have "filter_abs ?g1 = ?S"
    unfolding blk g0 by (simp only: sp snd_conv)
  with ev sp show ?thesis
    by (intro conjI)
qed
section \<open>Properties of the interpolation\<close>

lemma buf_write_in: "i < length xs \<Longrightarrow> buf_write xs i v = Some (xs[i := v])"
  by (simp add: buf_write_def)

lemma data_read_in:
  "0 \<le> k \<Longrightarrow> k < int (length d) \<Longrightarrow> data_read d k = Some (real_of_int (sint (d ! nat k)))"
  by (simp add: data_read_def)

lemma fast_loop_done: "\<not> i < e \<Longrightarrow> fast_loop rnd d a i e s = Some s"
  by (simp add: fast_loop.simps)

lemma fast_loop_step:
  "i < e \<Longrightarrow>
   fast_loop rnd d a i e s
   = do {
       x \<leftarrow> data_read d (fst (fluid_phase_index_plusplus (dsp_phase s)));
       b \<leftarrow> buf_write (dsp_buf s) i (rnd (dsp_amp s * x));
       fast_loop rnd d a (Suc i) e
         \<lparr>dsp_buf = b, dsp_amp = rnd (dsp_amp s + a),
          dsp_phase = snd (fluid_phase_index_plusplus (dsp_phase s))\<rparr>
     }"
  by (subst fast_loop.simps) simp

lemma interp_loop_done: "\<not> i < e \<Longrightarrow> interp_loop rnd point pinc a i e s = Some s"
  by (simp add: interp_loop.simps)

lemma interp_loop_step:
  "i < e \<Longrightarrow>
   interp_loop rnd point pinc a i e s
   = do {
       x \<leftarrow> point (dsp_phase s);
       b \<leftarrow> buf_write (dsp_buf s) i (rnd (dsp_amp s * x));
       interp_loop rnd point pinc a (Suc i) e
         \<lparr>dsp_buf = b, dsp_amp = rnd (dsp_amp s + a),
          dsp_phase = fluid_phase_incr (dsp_phase s) pinc\<rparr>
     }"
  by (subst interp_loop.simps) simp

lemma fast_loop_result:
  assumes "dsp_end \<le> length (dsp_buf s)"
    and "0 \<le> phase_index (dsp_phase s)"
    and "phase_index (dsp_phase s) + int (dsp_end - i) \<le> int (length dsp_data)"
  shows "\<exists>s'. fast_loop rnd dsp_data ainc i dsp_end s = Some s'
           \<and> length (dsp_buf s') = length (dsp_buf s)
           \<and> (\<forall>k. k < length (dsp_buf s) \<longrightarrow>
                 dsp_buf s' ! k
                 = (if i \<le> k \<and> k < dsp_end
                    then rnd (((\<lambda>a. rnd (a + ainc)) ^^ (k - i)) (dsp_amp s)
                         * real_of_int (sint (dsp_data ! (nat (phase_index (dsp_phase s)) + (k - i)))))
                    else dsp_buf s ! k))"
  using assms
proof (induction rnd dsp_data ainc i dsp_end s rule: fast_loop.induct)
  case (1 rnd d ainc i e s)
  show ?case
  proof (cases "i < e")
    case False
    then show ?thesis
      by (simp add: fast_loop.simps)
  next
    case True
    define idx where "idx = phase_index (dsp_phase s)"
    define x where "x = real_of_int (sint (d ! nat idx))"
    define b where "b = (dsp_buf s)[i := rnd (dsp_amp s * x)]"
    define s2 where "s2 = \<lparr>dsp_buf = b, dsp_amp = rnd (dsp_amp s + ainc),
      dsp_phase = snd (fluid_phase_index_plusplus (dsp_phase s))\<rparr>"
    from True "1.prems" have il: "i < length (dsp_buf s)" and i0: "0 \<le> idx"
      and i1: "idx < int (length d)"
      by (simp_all add: idx_def)
    have rd: "data_read d (fst (fluid_phase_index_plusplus (dsp_phase s))) = Some x"
      using i0 i1 by (simp add: fluid_phase_index_plusplus_def data_read_in idx_def x_def)
    have bw: "buf_write (dsp_buf s) i (rnd (dsp_amp s * x)) = Some b"
      using il by (simp add: buf_write_in b_def)
    have f2: "dsp_buf s2 = b" "dsp_amp s2 = rnd (dsp_amp s + ainc)"
      "phase_index (dsp_phase s2) = idx + 1"
      by (simp_all add: s2_def fluid_phase_index_plusplus_def idx_def)
    have p2: "e \<le> length (dsp_buf s2)" "0 \<le> phase_index (dsp_phase s2)"
      "phase_index (dsp_phase s2) + int (e - Suc i) \<le> int (length d)"
      using "1.prems" True i0 unfolding f2 by (simp_all add: b_def idx_def)
    from "1.IH" [OF True rd bw, folded s2_def, OF p2]
    obtain s' where res: "fast_loop rnd d ainc (Suc i) e s2 = Some s'"
      and len: "length (dsp_buf s') = length (dsp_buf s2)"
      and sk: "\<And>k. k < length (dsp_buf s2) \<Longrightarrow>
             dsp_buf s' ! k
             = (if Suc i \<le> k \<and> k < e
                then rnd (((\<lambda>a. rnd (a + ainc)) ^^ (k - Suc i)) (dsp_amp s2)
                     * real_of_int (sint (d ! (nat (phase_index (dsp_phase s2)) + (k - Suc i)))))
                else dsp_buf s2 ! k)"
      by blast
    have step: "fast_loop rnd d ainc i e s = fast_loop rnd d ainc (Suc i) e s2"
      using True rd bw by (subst fast_loop.simps) (simp add: s2_def)
    have lb: "length b = length (dsp_buf s)"
      by (simp add: b_def)
    have "dsp_buf s' ! k
          = (if i \<le> k \<and> k < e
             then rnd (((\<lambda>a. rnd (a + ainc)) ^^ (k - i)) (dsp_amp s)
                  * real_of_int (sint (d ! (nat idx + (k - i)))))
             else dsp_buf s ! k)"
      if kl: "k < length (dsp_buf s)" for k
    proof (cases "Suc i \<le> k \<and> k < e")
      case in_rest: True
      then have ik: "i < k" by simp
      have amp: "((\<lambda>a. rnd (a + ainc)) ^^ (k - Suc i)) (rnd (dsp_amp s + ainc))
                 = ((\<lambda>a. rnd (a + ainc)) ^^ (k - i)) (dsp_amp s)"
        by (rule funpow_block [OF ik, symmetric])
      from i0 have "nat (idx + 1) = Suc (nat idx)"
        by (simp add: nat_add_distrib)
      with in_rest have pos: "nat (idx + 1) + (k - Suc i) = nat idx + (k - i)"
        by arith
      from sk [of k] kl in_rest
      have "dsp_buf s' ! k
            = rnd (((\<lambda>a. rnd (a + ainc)) ^^ (k - Suc i)) (rnd (dsp_amp s + ainc))
                   * real_of_int (sint (d ! (nat (idx + 1) + (k - Suc i)))))"
        unfolding f2 lb by simp
      then have "dsp_buf s' ! k
            = rnd (((\<lambda>a. rnd (a + ainc)) ^^ (k - i)) (dsp_amp s)
                   * real_of_int (sint (d ! (nat idx + (k - i)))))"
        unfolding amp pos .
      with in_rest show ?thesis
        by simp
    next
      case not_rest: False
      show ?thesis
      proof (cases "k = i")
        case True
        then show ?thesis
          using sk [of k] kl not_rest \<open>i < e\<close> unfolding f2 lb
          by (simp add: b_def x_def)
      next
        case False
        with not_rest have out: "\<not> (i \<le> k \<and> k < e)" by auto
        from sk [of k] kl not_rest False have "dsp_buf s' ! k = dsp_buf s ! k"
          unfolding f2 lb by (simp add: b_def)
        with out show ?thesis
          by (simp only: if_False)
      qed
    qed
    then show ?thesis
      unfolding step idx_def using res len f2(1) lb by simp
  qed
qed

lemma fluid_phase_incr_one:
  assumes "fluid_phase_fract pinc = 0" and "fluid_phase_index pinc = 1"
  shows "fluid_phase_incr p pinc = snd (fluid_phase_index_plusplus p)"
proof -
  have "unat (phase_fract p) < 2 ^ 32"
    using unsigned_less [of "phase_fract p"] by simp
  with assms show ?thesis
    by (simp add: fluid_phase_incr_def fluid_phase_index_plusplus_def fluid_phase_fract_def
        fluid_phase_index_def)
qed

text \<open>
  With an increment of exactly one sample, the loop of the special case is the loop of
  the method without interpolation.
\<close>

lemma fast_loop_interp_loop:
  assumes "fluid_phase_fract pinc = 0" and "fluid_phase_index pinc = 1"
  shows "fast_loop rnd dsp_data ainc i dsp_end s
         = interp_loop rnd (point_none dsp_data) pinc ainc i dsp_end s"
proof (induction rnd dsp_data ainc i dsp_end s rule: fast_loop.induct)
  case (1 rnd d ainc i e s)
  show ?case
  proof (cases "i < e")
    case False
    then show ?thesis
      by (simp add: fast_loop_done interp_loop_done)
  next
    case True
    have rd: "data_read d (fst (fluid_phase_index_plusplus (dsp_phase s)))
              = point_none d (dsp_phase s)"
      by (simp add: point_none_def fluid_phase_index_plusplus_def fluid_phase_index_def)
    have nx: "snd (fluid_phase_index_plusplus (dsp_phase s)) = fluid_phase_incr (dsp_phase s) pinc"
      by (rule fluid_phase_incr_one [OF assms, symmetric])
    show ?thesis
    proof (cases "point_none d (dsp_phase s)")
      case None
      with True rd show ?thesis
        by (simp add: fast_loop_step interp_loop_step)
    next
      case (Some x)
      note px = Some
      show ?thesis
      proof (cases "buf_write (dsp_buf s) i (rnd (dsp_amp s * x))")
        case None
        with True rd px show ?thesis
          by (simp add: fast_loop_step interp_loop_step)
      next
        case (Some b)
        from px rd have rd': "data_read d (fst (fluid_phase_index_plusplus (dsp_phase s))) = Some x"
          by simp
        from "1.IH" [OF True rd' Some]
        show ?thesis
          using True rd px Some by (simp add: fast_loop_step interp_loop_step nx)
      qed
    qed
  qed
qed

text \<open>
  A loop of the \<open>switch\<close> whose reads stay inside \<open>dsp_data\<close> and whose writes stay inside
  \<open>dsp_buf\<close> has a result; the amplitude has then received one rounded addition of the
  increment per sample, and the phase one increment per sample.
\<close>

lemma interp_loop_end_state:
  assumes "dsp_end \<le> length (dsp_buf s)"
    and "\<forall>k<dsp_end - i. point (((\<lambda>p. fluid_phase_incr p pinc) ^^ k) (dsp_phase s)) \<noteq> None"
  shows "\<exists>s'. interp_loop rnd point pinc ainc i dsp_end s = Some s'
           \<and> dsp_amp s' = ((\<lambda>a. rnd (a + ainc)) ^^ (dsp_end - i)) (dsp_amp s)
           \<and> dsp_phase s' = ((\<lambda>p. fluid_phase_incr p pinc) ^^ (dsp_end - i)) (dsp_phase s)
           \<and> length (dsp_buf s') = length (dsp_buf s)"
  using assms
proof (induction rnd point pinc ainc i dsp_end s rule: interp_loop.induct)
  case (1 rnd point pinc ainc i e s)
  show ?case
  proof (cases "i < e")
    case False
    then show ?thesis
      by (simp add: interp_loop.simps)
  next
    case True
    then have "0 < e - i" by simp
    with "1.prems"(2) have "point (((\<lambda>p. fluid_phase_incr p pinc) ^^ 0) (dsp_phase s)) \<noteq> None"
      by blast
    then obtain x where px: "point (dsp_phase s) = Some x"
      by (cases "point (dsp_phase s)") simp_all
    define b where "b = (dsp_buf s)[i := rnd (dsp_amp s * x)]"
    from True "1.prems"(1) have bw: "buf_write (dsp_buf s) i (rnd (dsp_amp s * x)) = Some b"
      by (simp add: buf_write_def b_def)
    define s2 where "s2 = \<lparr>dsp_buf = b, dsp_amp = rnd (dsp_amp s + ainc),
                dsp_phase = fluid_phase_incr (dsp_phase s) pinc\<rparr>"
    have sel: "dsp_phase s2 = fluid_phase_incr (dsp_phase s) pinc" "dsp_buf s2 = b"
      "dsp_amp s2 = rnd (dsp_amp s + ainc)"
      by (simp_all add: s2_def)
    have lb: "length b = length (dsp_buf s)"
      by (simp add: b_def)
    have len: "e \<le> length (dsp_buf s2)"
      unfolding sel lb using "1.prems"(1) .
    have pts: "\<forall>k<e - Suc i. point (((\<lambda>p. fluid_phase_incr p pinc) ^^ k) (dsp_phase s2)) \<noteq> None"
    proof (intro allI impI)
      fix k assume "k < e - Suc i"
      then have "Suc k < e - i" by simp
      with "1.prems"(2) have "point (((\<lambda>p. fluid_phase_incr p pinc) ^^ Suc k) (dsp_phase s)) \<noteq> None"
        by blast
      then show "point (((\<lambda>p. fluid_phase_incr p pinc) ^^ k) (dsp_phase s2)) \<noteq> None"
        unfolding sel funpow_Suc_apply .
    qed
    from "1.IH" [OF True px bw, folded s2_def, OF len pts]
    obtain s' where res: "interp_loop rnd point pinc ainc (Suc i) e s2 = Some s'"
      and am: "dsp_amp s' = ((\<lambda>a. rnd (a + ainc)) ^^ (e - Suc i)) (dsp_amp s2)"
      and ph: "dsp_phase s' = ((\<lambda>p. fluid_phase_incr p pinc) ^^ (e - Suc i)) (dsp_phase s2)"
      and ln: "length (dsp_buf s') = length (dsp_buf s2)"
      by blast
    have step: "interp_loop rnd point pinc ainc i e s = interp_loop rnd point pinc ainc (Suc i) e s2"
      using True px bw by (subst interp_loop.simps) (simp add: s2_def)
    have am': "dsp_amp s' = ((\<lambda>a. rnd (a + ainc)) ^^ (e - i)) (dsp_amp s)"
      unfolding am sel by (rule funpow_block [OF True, symmetric])
    have ph': "dsp_phase s' = ((\<lambda>p. fluid_phase_incr p pinc) ^^ (e - i)) (dsp_phase s)"
      unfolding ph sel by (rule funpow_block [OF True, symmetric])
    have ln': "length (dsp_buf s') = length (dsp_buf s)"
      unfolding ln sel lb by (rule refl)
    from res am' ph' ln' show ?thesis
      unfolding step by blast
  qed
qed

lemma point_none_defined:
  "0 \<le> fluid_phase_index p \<Longrightarrow> fluid_phase_index p + 1 \<le> int (length d) \<Longrightarrow>
   point_none d p \<noteq> None"
  by (simp add: point_none_def data_read_def)

lemma point_linear_defined:
  "0 \<le> fluid_phase_index p \<Longrightarrow> fluid_phase_index p + 2 \<le> int (length d) \<Longrightarrow>
   point_linear rnd T d p \<noteq> None"
  by (simp add: point_linear_def data_read_def split: prod.splits)

lemma point_4thorder_defined:
  "0 \<le> fluid_phase_index p \<Longrightarrow> fluid_phase_index p + 4 \<le> int (length d) \<Longrightarrow>
   point_4thorder rnd T d p \<noteq> None"
  by (simp add: point_4thorder_def data_read_def split: prod.splits)

lemma point_7thorder_defined:
  "0 \<le> fluid_phase_index p \<Longrightarrow> fluid_phase_index p + 7 \<le> int (length d) \<Longrightarrow>
   point_7thorder rnd T d p \<noteq> None"
  by (simp add: point_7thorder_def data_read_def Let_def)

text \<open>
  Claim C7, as stated: the block leaves the amplitude at its initial value plus
  \<open>N * dsp_amp_incr\<close>. Each of the \<open>N\<close> additions rounds. In the \<open>double\<close> build, with an
  amplitude of \<open>2 ^ 53\<close> (9007199254740992), an increment of 1 and a block of two samples,
  each sum \<open>2 ^ 53 + 1\<close> is rounded back to \<open>2 ^ 53\<close>: the block ends with the amplitude
  \<open>2 ^ 53\<close>, not \<open>2 ^ 53 + 2\<close>.
\<close>

theorem dsp_interpolate_end_state_counterexample:
  "dsp_interpolate round_double
     \<lparr>fract_to_tablerow = (\<lambda>w. 0), interp_coeff_linear = (\<lambda>r. (1 / 2, 1 / 2)),
      interp_coeff = (\<lambda>r. (0, 1, 0, 0)), sinc_table7 = (\<lambda>i r. 0)\<rparr>
     FLUID_INTERP_NONE [1, 1]
     \<lparr>phase_index = 0, phase_fract = 0x80000000\<rparr> 1 0 2
     \<lparr>dsp_buf = [0, 0], dsp_amp = 9007199254740992,
      dsp_phase = \<lparr>phase_index = 0, phase_fract = 0\<rparr>\<rparr>
   = Some \<lparr>dsp_buf = [9007199254740992, 9007199254740992], dsp_amp = 9007199254740992,
           dsp_phase = \<lparr>phase_index = 1, phase_fract = 0\<rparr>\<rparr>
   \<and> (9007199254740992 :: real) = 2 ^ 53
   \<and> (9007199254740992 :: real) \<noteq> 9007199254740992 + real (2 - 0) * 1"
  by (simp add: dsp_interpolate_def fluid_phase_fract_def fluid_phase_index_def
      interp_loop_step interp_loop_done point_none_def data_read_def buf_write_def
      fluid_phase_incr_def round_double_2p53 round_double_tie)

text \<open>
  Claim C7, amended. For every interpolation method, a block of \<open>N = dsp_end - dsp_start\<close>
  samples whose writes stay inside \<open>dsp_buf\<close> and whose reads stay inside \<open>dsp_data\<close> (at
  each of the \<open>N\<close> phases, the samples that the method reads from the index of the phase
  on) has a result. It leaves the amplitude at the value that \<open>N\<close> successive rounded
  additions of \<open>dsp_amp_incr\<close> to the initial amplitude give, one addition after each
  output sample, and the phase at the initial phase advanced by \<open>N\<close> applications of the
  phase increment.
\<close>

theorem dsp_interpolate_end_state:
  assumes "dsp_end \<le> length (dsp_buf s)"
    and "\<forall>k<dsp_end - dsp_start.
           0 \<le> fluid_phase_index (((\<lambda>p. fluid_phase_incr p dsp_phase_incr) ^^ k) (dsp_phase s))
           \<and> fluid_phase_index (((\<lambda>p. fluid_phase_incr p dsp_phase_incr) ^^ k) (dsp_phase s))
               + samples_read dsp_interp_method (dsp_phase s) dsp_phase_incr
             \<le> int (length dsp_data)"
  shows "\<exists>s'. dsp_interpolate rnd T dsp_interp_method dsp_data dsp_phase_incr dsp_amp_incr
                dsp_start dsp_end s = Some s'
           \<and> dsp_amp s'
             = ((\<lambda>a. rnd (a + dsp_amp_incr)) ^^ (dsp_end - dsp_start)) (dsp_amp s)
           \<and> dsp_phase s'
             = ((\<lambda>p. fluid_phase_incr p dsp_phase_incr) ^^ (dsp_end - dsp_start)) (dsp_phase s)
           \<and> length (dsp_buf s') = length (dsp_buf s)"
proof -
  define P where "P k = ((\<lambda>p. fluid_phase_incr p dsp_phase_incr) ^^ k) (dsp_phase s)" for k
  define w where "w = samples_read dsp_interp_method (dsp_phase s) dsp_phase_incr"
  from assms(2) have rd: "0 \<le> fluid_phase_index (P k)"
    "fluid_phase_index (P k) + w \<le> int (length dsp_data)"
    if "k < dsp_end - dsp_start" for k
    using that unfolding P_def w_def by blast+
  have p1: "\<forall>k<dsp_end - dsp_start. point_none dsp_data (P k) \<noteq> None" if "w = 1"
  proof (intro allI impI)
    fix k assume k: "k < dsp_end - dsp_start"
    show "point_none dsp_data (P k) \<noteq> None"
      using rd(1) [OF k] rd(2) [OF k, unfolded that] by (rule point_none_defined)
  qed
  have p2: "\<forall>k<dsp_end - dsp_start. point_linear rnd T dsp_data (P k) \<noteq> None" if "w = 2"
  proof (intro allI impI)
    fix k assume k: "k < dsp_end - dsp_start"
    show "point_linear rnd T dsp_data (P k) \<noteq> None"
      using rd(1) [OF k] rd(2) [OF k, unfolded that] by (rule point_linear_defined)
  qed
  have p4: "\<forall>k<dsp_end - dsp_start. point_4thorder rnd T dsp_data (P k) \<noteq> None" if "w = 4"
  proof (intro allI impI)
    fix k assume k: "k < dsp_end - dsp_start"
    show "point_4thorder rnd T dsp_data (P k) \<noteq> None"
      using rd(1) [OF k] rd(2) [OF k, unfolded that] by (rule point_4thorder_defined)
  qed
  have p7: "\<forall>k<dsp_end - dsp_start. point_7thorder rnd T dsp_data (P k) \<noteq> None" if "w = 7"
  proof (intro allI impI)
    fix k assume k: "k < dsp_end - dsp_start"
    show "point_7thorder rnd T dsp_data (P k) \<noteq> None"
      using rd(1) [OF k] rd(2) [OF k, unfolded that] by (rule point_7thorder_defined)
  qed
  have "\<exists>point. dsp_interpolate rnd T dsp_interp_method dsp_data dsp_phase_incr dsp_amp_incr
                  dsp_start dsp_end s
                = interp_loop rnd point dsp_phase_incr dsp_amp_incr dsp_start dsp_end s
              \<and> (\<forall>k<dsp_end - dsp_start. point (P k) \<noteq> None)"
  proof (cases "fluid_phase_fract (dsp_phase s) = 0 \<and> fluid_phase_fract dsp_phase_incr = 0
                \<and> fluid_phase_index dsp_phase_incr = 1")
    case True
    then have w1: "w = 1"
      by (simp add: w_def samples_read_def)
    from True have "dsp_interpolate rnd T dsp_interp_method dsp_data dsp_phase_incr dsp_amp_incr
                      dsp_start dsp_end s
                    = interp_loop rnd (point_none dsp_data) dsp_phase_incr dsp_amp_incr
                        dsp_start dsp_end s"
      by (simp add: dsp_interpolate_def fast_loop_interp_loop)
    moreover note p1 [OF w1]
    ultimately show ?thesis
      by blast
  next
    case False
    have slow: "dsp_interpolate rnd T dsp_interp_method dsp_data dsp_phase_incr dsp_amp_incr
                  dsp_start dsp_end s
                = (case dsp_interp_method of
                     FLUID_INTERP_NONE \<Rightarrow>
                       interp_loop rnd (point_none dsp_data) dsp_phase_incr dsp_amp_incr
                         dsp_start dsp_end s
                   | FLUID_INTERP_LINEAR \<Rightarrow>
                       interp_loop rnd (point_linear rnd T dsp_data) dsp_phase_incr dsp_amp_incr
                         dsp_start dsp_end s
                   | FLUID_INTERP_7THORDER \<Rightarrow>
                       interp_loop rnd (point_7thorder rnd T dsp_data) dsp_phase_incr dsp_amp_incr
                         dsp_start dsp_end s
                   | _ \<Rightarrow>
                       interp_loop rnd (point_4thorder rnd T dsp_data) dsp_phase_incr dsp_amp_incr
                         dsp_start dsp_end s)"
      unfolding dsp_interpolate_def by (rule if_not_P [OF False])
    show ?thesis
    proof (cases dsp_interp_method)
      case FLUID_INTERP_NONE
      with False have w1: "w = 1"
        by (simp add: w_def samples_read_def)
      from slow FLUID_INTERP_NONE have "dsp_interpolate rnd T dsp_interp_method dsp_data dsp_phase_incr
                      dsp_amp_incr dsp_start dsp_end s
                    = interp_loop rnd (point_none dsp_data) dsp_phase_incr dsp_amp_incr
                        dsp_start dsp_end s"
        by simp
      with p1 [OF w1] show ?thesis
        by blast
    next
      case FLUID_INTERP_LINEAR
      with False have w1: "w = 2"
        by (simp add: w_def samples_read_def)
      from slow FLUID_INTERP_LINEAR have "dsp_interpolate rnd T dsp_interp_method dsp_data dsp_phase_incr
                      dsp_amp_incr dsp_start dsp_end s
                    = interp_loop rnd (point_linear rnd T dsp_data) dsp_phase_incr dsp_amp_incr
                        dsp_start dsp_end s"
        by simp
      with p2 [OF w1] show ?thesis
        by blast
    next
      case FLUID_INTERP_4THORDER
      with False have w1: "w = 4"
        by (simp add: w_def samples_read_def)
      from slow FLUID_INTERP_4THORDER have "dsp_interpolate rnd T dsp_interp_method dsp_data dsp_phase_incr
                      dsp_amp_incr dsp_start dsp_end s
                    = interp_loop rnd (point_4thorder rnd T dsp_data) dsp_phase_incr dsp_amp_incr
                        dsp_start dsp_end s"
        by simp
      with p4 [OF w1] show ?thesis
        by blast
    next
      case FLUID_INTERP_7THORDER
      with False have w1: "w = 7"
        by (simp add: w_def samples_read_def)
      from slow FLUID_INTERP_7THORDER have "dsp_interpolate rnd T dsp_interp_method dsp_data dsp_phase_incr
                      dsp_amp_incr dsp_start dsp_end s
                    = interp_loop rnd (point_7thorder rnd T dsp_data) dsp_phase_incr dsp_amp_incr
                        dsp_start dsp_end s"
        by simp
      with p7 [OF w1] show ?thesis
        by blast
    next
      case FLUID_INTERP_OTHER
      with False have w1: "w = 4"
        by (simp add: w_def samples_read_def)
      from slow FLUID_INTERP_OTHER have "dsp_interpolate rnd T dsp_interp_method dsp_data dsp_phase_incr
                      dsp_amp_incr dsp_start dsp_end s
                    = interp_loop rnd (point_4thorder rnd T dsp_data) dsp_phase_incr dsp_amp_incr
                        dsp_start dsp_end s"
        by simp
      with p4 [OF w1] show ?thesis
        by blast
    qed
  qed
  then obtain point where
    run: "dsp_interpolate rnd T dsp_interp_method dsp_data dsp_phase_incr dsp_amp_incr
            dsp_start dsp_end s
          = interp_loop rnd point dsp_phase_incr dsp_amp_incr dsp_start dsp_end s"
    and pts: "\<forall>k<dsp_end - dsp_start.
                point (((\<lambda>p. fluid_phase_incr p dsp_phase_incr) ^^ k) (dsp_phase s)) \<noteq> None"
    unfolding P_def by blast
  from interp_loop_end_state [OF assms(1) pts, of rnd dsp_amp_incr]
  show ?thesis
    unfolding run .
qed

theorem dsp_interpolate_end_state_witness:
  "3 \<le> length (dsp_buf \<lparr>dsp_buf = [0, 0, 0], dsp_amp = 1,
                          dsp_phase = \<lparr>phase_index = 0, phase_fract = 0\<rparr>\<rparr>)
   \<and> dsp_interpolate round_double
     \<lparr>fract_to_tablerow = (\<lambda>w. 0), interp_coeff_linear = (\<lambda>r. (1 / 2, 1 / 2)),
       interp_coeff = (\<lambda>r. (0, 1, 0, 0)), sinc_table7 = (\<lambda>i r. 0)\<rparr> FLUID_INTERP_LINEAR [10, 20, 30, 40]
     \<lparr>phase_index = 0, phase_fract = 0x80000000\<rparr> 1 0 3
     \<lparr>dsp_buf = [0, 0, 0], dsp_amp = 1, dsp_phase = \<lparr>phase_index = 0, phase_fract = 0\<rparr>\<rparr>
   = Some \<lparr>dsp_buf = [15, 30, 75], dsp_amp = 4,
           dsp_phase = \<lparr>phase_index = 1, phase_fract = 0x80000000\<rparr>\<rparr>
   \<and> dsp_amp \<lparr>dsp_buf = [15, 30, 75], dsp_amp = 4,
           dsp_phase = \<lparr>phase_index = 1, phase_fract = 0x80000000\<rparr>\<rparr>
     = ((\<lambda>a. round_double (a + 1)) ^^ (3 - 0)) 1
   \<and> dsp_phase \<lparr>dsp_buf = [15, 30, 75], dsp_amp = 4,
           dsp_phase = \<lparr>phase_index = 1, phase_fract = 0x80000000\<rparr>\<rparr>
     = ((\<lambda>p. fluid_phase_incr p \<lparr>phase_index = 0, phase_fract = 0x80000000\<rparr>) ^^ (3 - 0))
         \<lparr>phase_index = 0, phase_fract = 0\<rparr>"
proof -
  let ?T = "\<lparr>fract_to_tablerow = (\<lambda>w. 0), interp_coeff_linear = (\<lambda>r. (1 / 2, 1 / 2)),
       interp_coeff = (\<lambda>r. (0, 1, 0, 0)), sinc_table7 = (\<lambda>i r. 0)\<rparr>"
  let ?d = "[10, 20, 30, 40] :: 16 word list"
  let ?pinc = "\<lparr>phase_index = 0, phase_fract = 0x80000000\<rparr>"
  let ?s = "\<lparr>dsp_buf = [0, 0, 0], dsp_amp = 1, dsp_phase = \<lparr>phase_index = 0, phase_fract = 0\<rparr>\<rparr>"
  let ?s1 = "\<lparr>dsp_buf = [15, 30, 75], dsp_amp = 4,
           dsp_phase = \<lparr>phase_index = 1, phase_fract = 0x80000000\<rparr>\<rparr>"
  have h1: "3 \<le> length (dsp_buf ?s)"
    by simp
  have h2: "\<forall>k<3 - 0.
              0 \<le> fluid_phase_index (((\<lambda>p. fluid_phase_incr p ?pinc) ^^ k) (dsp_phase ?s))
              \<and> fluid_phase_index (((\<lambda>p. fluid_phase_incr p ?pinc) ^^ k) (dsp_phase ?s))
                  + samples_read FLUID_INTERP_LINEAR (dsp_phase ?s) ?pinc
                \<le> int (length ?d)"
    by (simp add: numeral_3_eq_3 All_less_Suc samples_read_def fluid_phase_fract_def
        fluid_phase_index_def fluid_phase_incr_def)
  have ev: "dsp_interpolate round_double ?T FLUID_INTERP_LINEAR ?d ?pinc 1 0 3 ?s = Some ?s1"
    by (simp add: dsp_interpolate_def fluid_phase_fract_def fluid_phase_index_def
        interp_loop_step interp_loop_done point_linear_def fluid_phase_fract_to_tablerow_def
        data_read_def buf_write_def fluid_phase_incr_def round_double_int)
  from dsp_interpolate_end_state [OF h1 h2, of round_double ?T 1]
  obtain s' where
    r: "dsp_interpolate round_double ?T FLUID_INTERP_LINEAR ?d ?pinc 1 0 3 ?s = Some s'"
    and a: "dsp_amp s' = ((\<lambda>a. round_double (a + 1)) ^^ (3 - 0)) (dsp_amp ?s)"
    and p: "dsp_phase s' = ((\<lambda>p. fluid_phase_incr p ?pinc) ^^ (3 - 0)) (dsp_phase ?s)"
    by blast
  from r have "s' = ?s1"
    unfolding ev by (simp only: option.inject)
  with a p have "dsp_amp ?s1 = ((\<lambda>a. round_double (a + 1)) ^^ (3 - 0)) (dsp_amp ?s)"
    and "dsp_phase ?s1 = ((\<lambda>p. fluid_phase_incr p ?pinc) ^^ (3 - 0)) (dsp_phase ?s)"
    by (simp_all only:)
  then have "dsp_amp ?s1 = ((\<lambda>a. round_double (a + 1)) ^^ (3 - 0)) 1"
    and "dsp_phase ?s1 = ((\<lambda>p. fluid_phase_incr p ?pinc) ^^ (3 - 0))
                           \<lparr>phase_index = 0, phase_fract = 0\<rparr>"
    by simp_all
  with h1 ev show ?thesis
    by (intro conjI)
qed

text \<open>
  Claim C1. When the fractional phase is 0 and the phase increment is exactly one sample
  (index 1, fraction 0), every output sample \<open>dsp_buf[i]\<close> of the block is the current
  amplitude (the initial amplitude after one addition of \<open>dsp_amp_incr\<close> per sample
  already written) times the raw sample at the successive indices, one product of
  \<open>fluid_real_t\<close>, whatever the interpolation method and the tables; the buffer outside
  the block is unchanged.
\<close>

theorem dsp_interpolate_fast_path:
  assumes "fluid_phase_fract (dsp_phase s) = 0"
    and "fluid_phase_index dsp_phase_incr = 1"
    and "fluid_phase_fract dsp_phase_incr = 0"
    and "dsp_end \<le> length (dsp_buf s)"
    and "0 \<le> fluid_phase_index (dsp_phase s)"
    and "fluid_phase_index (dsp_phase s) + int (dsp_end - dsp_start) \<le> int (length dsp_data)"
  shows "\<exists>s'. dsp_interpolate rnd T dsp_interp_method dsp_data dsp_phase_incr dsp_amp_incr
                dsp_start dsp_end s = Some s'
           \<and> length (dsp_buf s') = length (dsp_buf s)
           \<and> (\<forall>i. dsp_start \<le> i \<and> i < dsp_end \<longrightarrow>
                 dsp_buf s' ! i
                 = rnd (((\<lambda>a. rnd (a + dsp_amp_incr)) ^^ (i - dsp_start)) (dsp_amp s)
                        * real_of_int (sint (dsp_data
                            ! (nat (fluid_phase_index (dsp_phase s)) + (i - dsp_start))))))
           \<and> (\<forall>i. i < length (dsp_buf s) \<and> (i < dsp_start \<or> dsp_end \<le> i) \<longrightarrow>
                 dsp_buf s' ! i = dsp_buf s ! i)"
proof -
  from assms(4-6) have b: "dsp_end \<le> length (dsp_buf s)" "0 \<le> phase_index (dsp_phase s)"
    "phase_index (dsp_phase s) + int (dsp_end - dsp_start) \<le> int (length dsp_data)"
    by (simp_all add: fluid_phase_index_def)
  from fast_loop_result [OF b, of rnd dsp_amp_incr]
  obtain s' where res: "fast_loop rnd dsp_data dsp_amp_incr dsp_start dsp_end s = Some s'"
    and len: "length (dsp_buf s') = length (dsp_buf s)"
    and sk: "\<And>k. k < length (dsp_buf s) \<Longrightarrow>
           dsp_buf s' ! k
           = (if dsp_start \<le> k \<and> k < dsp_end
              then rnd (((\<lambda>a. rnd (a + dsp_amp_incr)) ^^ (k - dsp_start)) (dsp_amp s)
                   * real_of_int (sint (dsp_data
                       ! (nat (phase_index (dsp_phase s)) + (k - dsp_start)))))
              else dsp_buf s ! k)"
    by blast
  have run: "dsp_interpolate rnd T dsp_interp_method dsp_data dsp_phase_incr dsp_amp_incr
               dsp_start dsp_end s = Some s'"
    using assms(1-3) res by (simp add: dsp_interpolate_def)
  have inside: "dsp_buf s' ! i
        = rnd (((\<lambda>a. rnd (a + dsp_amp_incr)) ^^ (i - dsp_start)) (dsp_amp s)
               * real_of_int (sint (dsp_data
                   ! (nat (fluid_phase_index (dsp_phase s)) + (i - dsp_start)))))"
    if "dsp_start \<le> i \<and> i < dsp_end" for i
    using sk [of i] that assms(4) by (simp add: fluid_phase_index_def)
  have outside: "dsp_buf s' ! i = dsp_buf s ! i"
    if "i < length (dsp_buf s) \<and> (i < dsp_start \<or> dsp_end \<le> i)" for i
    using sk [of i] that by auto
  from run len inside outside show ?thesis
    by blast
qed

theorem dsp_interpolate_fast_path_witness:
  "fluid_phase_fract \<lparr>phase_index = 1, phase_fract = 0\<rparr> = 0
   \<and> fluid_phase_index \<lparr>phase_index = 1, phase_fract = 0\<rparr> = 1
   \<and> dsp_interpolate round_double
       \<lparr>fract_to_tablerow = (\<lambda>w. 0), interp_coeff_linear = (\<lambda>r. (1 / 2, 1 / 2)),
       interp_coeff = (\<lambda>r. (0, 1, 0, 0)), sinc_table7 = (\<lambda>i r. 0)\<rparr> FLUID_INTERP_7THORDER [10, 20, 30, 40, 50, 60, 70]
       \<lparr>phase_index = 1, phase_fract = 0\<rparr> 1 1 4
       \<lparr>dsp_buf = [0, 0, 0, 0], dsp_amp = 1, dsp_phase = \<lparr>phase_index = 2, phase_fract = 0\<rparr>\<rparr>
     = Some \<lparr>dsp_buf = [0, 30, 80, 150], dsp_amp = 4,
             dsp_phase = \<lparr>phase_index = 5, phase_fract = 0\<rparr>\<rparr>
   \<and> dsp_buf \<lparr>dsp_buf = [0, 30, 80, 150], dsp_amp = 4,
             dsp_phase = \<lparr>phase_index = 5, phase_fract = 0\<rparr>\<rparr> ! 3
     = round_double (((\<lambda>a. round_double (a + 1)) ^^ (3 - 1)) 1
                     * real_of_int (sint ([10, 20, 30, 40, 50, 60, 70 :: 16 word] ! (2 + (3 - 1)))))"
proof -
  let ?T = "\<lparr>fract_to_tablerow = (\<lambda>w. 0), interp_coeff_linear = (\<lambda>r. (1 / 2, 1 / 2)),
       interp_coeff = (\<lambda>r. (0, 1, 0, 0)), sinc_table7 = (\<lambda>i r. 0)\<rparr>"
  let ?d = "[10, 20, 30, 40, 50, 60, 70] :: 16 word list"
  let ?pinc = "\<lparr>phase_index = 1, phase_fract = 0\<rparr>"
  let ?s = "\<lparr>dsp_buf = [0, 0, 0, 0], dsp_amp = 1, dsp_phase = \<lparr>phase_index = 2, phase_fract = 0\<rparr>\<rparr>"
  let ?s1 = "\<lparr>dsp_buf = [0, 30, 80, 150], dsp_amp = 4,
             dsp_phase = \<lparr>phase_index = 5, phase_fract = 0\<rparr>\<rparr>"
  have h: "fluid_phase_fract (dsp_phase ?s) = 0" "fluid_phase_index ?pinc = 1"
    "fluid_phase_fract ?pinc = 0" "4 \<le> length (dsp_buf ?s)"
    "0 \<le> fluid_phase_index (dsp_phase ?s)"
    "fluid_phase_index (dsp_phase ?s) + int (4 - 1) \<le> int (length ?d)"
    by (simp_all add: fluid_phase_fract_def fluid_phase_index_def)
  have ev: "dsp_interpolate round_double ?T FLUID_INTERP_7THORDER ?d ?pinc 1 1 4 ?s = Some ?s1"
    by (simp add: dsp_interpolate_def fluid_phase_fract_def fluid_phase_index_def
        fast_loop_step fast_loop_done data_read_def buf_write_def fluid_phase_index_plusplus_def
        round_double_int)
  from dsp_interpolate_fast_path [OF h, of round_double ?T FLUID_INTERP_7THORDER 1]
  obtain s' where
    r: "dsp_interpolate round_double ?T FLUID_INTERP_7THORDER ?d ?pinc 1 1 4 ?s = Some s'"
    and k: "\<And>i. 1 \<le> i \<and> i < 4 \<Longrightarrow>
           dsp_buf s' ! i
           = round_double (((\<lambda>a. round_double (a + 1)) ^^ (i - 1)) (dsp_amp ?s)
               * real_of_int (sint (?d ! (nat (fluid_phase_index (dsp_phase ?s)) + (i - 1)))))"
    by blast
  from r have "s' = ?s1"
    unfolding ev by (simp only: option.inject)
  with k [of 3] have "dsp_buf ?s1 ! 3
        = round_double (((\<lambda>a. round_double (a + 1)) ^^ (3 - 1)) (dsp_amp ?s)
            * real_of_int (sint (?d ! (nat (fluid_phase_index (dsp_phase ?s)) + (3 - 1)))))"
    by simp
  then have "dsp_buf ?s1 ! 3
        = round_double (((\<lambda>a. round_double (a + 1)) ^^ (3 - 1)) 1
            * real_of_int (sint (?d ! (2 + (3 - 1)))))"
    by (simp add: fluid_phase_index_def)
  with h(3,2) ev show ?thesis
    by (intro conjI)
qed

end
